theory Spec2Isabelle
  imports Main "HOL-Library.Sublist" "HOL-Library.Word"
begin

section \<open>Strings and buffers\<close>

text \<open>
  A JavaScript string is a sequence of UTF-16 code units, a Buffer a sequence of bytes.
  The literals of the sources are ASCII; \<open>js\<close> embeds them code unit by code unit.
\<close>

type_synonym utf16 = "16 word"
type_synonym jsstring = "utf16 list"
type_synonym bytes = "8 word list"

definition js :: "string \<Rightarrow> jsstring" where
  "js s = map of_char s"

subsection \<open>\<open>String.prototype.replace\<close> with a global literal pattern\<close>

text \<open>
  \<open>text.replace(/literal/g, replacement)\<close>: the text is scanned from the left; where
  the pattern matches, the replacement is emitted and the scan resumes behind the match,
  otherwise one code unit is copied. The patterns of \<open>server.js\<close> are literals (every
  special character escaped) and their replacements contain no \<open>$\<close>, so the replacement
  is emitted as it is written. The patterns are not empty.
\<close>

function replaceAll :: "'a list \<Rightarrow> 'a list \<Rightarrow> 'a list \<Rightarrow> 'a list" where
  "replaceAll p r [] = []"
| "replaceAll p r (c # cs) =
     (if p \<noteq> [] \<and> prefix p (c # cs)
      then r @ replaceAll p r (drop (length p) (c # cs))
      else c # replaceAll p r cs)"
  by pat_completeness auto
termination
  by (relation "measure (\<lambda>(p, r, t). length t)") auto

text \<open>
  \<open>agree q s\<close>: \<open>q\<close> and \<open>s\<close> coincide as far as both reach. A match of \<open>q\<close> that
  starts at the head of \<open>s @ rest\<close> forces \<open>agree q s\<close>.
\<close>

definition agree :: "'a list \<Rightarrow> 'a list \<Rightarrow> bool" where
  "agree q s = (take (length s) q = take (length q) s)"

definition startsInside :: "'a list \<Rightarrow> 'a list \<Rightarrow> bool" where
  "startsInside q s = list_ex (\<lambda>k. agree q (drop k s)) [0..<length s]"

subsection \<open>Replacing either of two patterns in one pass\<close>

text \<open>
  The reading of the rewrite that the claim about the feed hosts gives: the text is
  scanned once from the left; each occurrence of the first pattern is replaced by the
  first replacement, each occurrence of the second pattern by the second, and every
  other code unit is copied.
\<close>

function replaceEither :: "'a list \<Rightarrow> 'a list \<Rightarrow> 'a list \<Rightarrow> 'a list \<Rightarrow> 'a list \<Rightarrow> 'a list" where
  "replaceEither p r q s [] = []"
| "replaceEither p r q s (c # cs) =
     (if p \<noteq> [] \<and> prefix p (c # cs)
      then r @ replaceEither p r q s (drop (length p) (c # cs))
      else if q \<noteq> [] \<and> prefix q (c # cs)
      then s @ replaceEither p r q s (drop (length q) (c # cs))
      else c # replaceEither p r q s cs)"
  by pat_completeness auto
termination
  by (relation "measure (\<lambda>(p, r, q, s, t). length t)") auto

subsection \<open>\<open>String(n)\<close> for a non-negative integer\<close>

definition digitUnit :: "nat \<Rightarrow> utf16" where
  "digitUnit d = of_nat (48 + d)"

fun numberToString :: "nat \<Rightarrow> jsstring" where
  "numberToString n =
     (if n < 10 then [digitUnit n] else numberToString (n div 10) @ [digitUnit (n mod 10)])"

declare numberToString.simps [simp del]

subsection \<open>\<open>JSON.stringify\<close>\<close>

text \<open>
  The values the sources serialise: strings, numbers, arrays and objects (an object is
  the list of its own properties in enumeration order). A string is quoted as
  ECMAScript's QuoteJSONString does: the two-character escapes, \<open>\uXXXX\<close> (lower-case
  hexadecimal) for the other control characters and for a surrogate that is not part of a
  pair, every other code unit as it is.
\<close>

datatype json = JString jsstring | JNumber nat | JArray "json list" | JObject "(jsstring \<times> json) list"

definition isLeadingSurrogate :: "utf16 \<Rightarrow> bool" where
  "isLeadingSurrogate c = (0xD800 \<le> c \<and> c \<le> 0xDBFF)"

definition isTrailingSurrogate :: "utf16 \<Rightarrow> bool" where
  "isTrailingSurrogate c = (0xDC00 \<le> c \<and> c \<le> 0xDFFF)"

definition hexDigit :: "nat \<Rightarrow> utf16" where
  "hexDigit d = (if d < 10 then of_nat (48 + d) else of_nat (87 + d))"

definition unicodeEscape :: "utf16 \<Rightarrow> jsstring" where
  "unicodeEscape c =
     (let n = unat c
      in [0x5C, 0x75, hexDigit (n div 4096), hexDigit (n div 256 mod 16),
          hexDigit (n div 16 mod 16), hexDigit (n mod 16)])"

definition quoteUnit :: "utf16 \<Rightarrow> jsstring" where
  "quoteUnit c =
     (if c = 0x08 then [0x5C, 0x62]
      else if c = 0x09 then [0x5C, 0x74]
      else if c = 0x0A then [0x5C, 0x6E]
      else if c = 0x0C then [0x5C, 0x66]
      else if c = 0x0D then [0x5C, 0x72]
      else if c = 0x22 then [0x5C, 0x22]
      else if c = 0x5C then [0x5C, 0x5C]
      else if c < 0x20 \<or> isLeadingSurrogate c \<or> isTrailingSurrogate c then unicodeEscape c
      else [c])"

fun quoteBody :: "jsstring \<Rightarrow> jsstring" where
  "quoteBody [] = []"
| "quoteBody [c] = quoteUnit c"
| "quoteBody (c # d # ds) =
     (if isLeadingSurrogate c \<and> isTrailingSurrogate d then c # d # quoteBody ds
      else quoteUnit c @ quoteBody (d # ds))"

definition quoteJSONString :: "jsstring \<Rightarrow> jsstring" where
  "quoteJSONString s = 0x22 # quoteBody s @ [0x22]"

fun stringify :: "json \<Rightarrow> jsstring"
  and stringifyElements :: "json list \<Rightarrow> jsstring"
  and stringifyProperties :: "(jsstring \<times> json) list \<Rightarrow> jsstring" where
  "stringify (JString s) = quoteJSONString s"
| "stringify (JNumber n) = numberToString n"
| "stringify (JArray xs) = 0x5B # stringifyElements xs @ [0x5D]"
| "stringify (JObject ps) = 0x7B # stringifyProperties ps @ [0x7D]"
| "stringifyElements [] = []"
| "stringifyElements [x] = stringify x"
| "stringifyElements (x # y # ys) = stringify x @ 0x2C # stringifyElements (y # ys)"
| "stringifyProperties [] = []"
| "stringifyProperties [(k, v)] = quoteJSONString k @ 0x3A # stringify v"
| "stringifyProperties ((k, v) # p # ps) =
     quoteJSONString k @ 0x3A # stringify v @ 0x2C # stringifyProperties (p # ps)"

text \<open>The reading of a quoted string, used to show that quoting loses nothing.\<close>

definition hexValue :: "utf16 \<Rightarrow> nat" where
  "hexValue h = (let n = unat h in if n < 58 then n - 48 else n - 87)"

definition unescapeUnit :: "utf16 \<Rightarrow> utf16" where
  "unescapeUnit e =
     (if e = 0x62 then 0x08
      else if e = 0x74 then 0x09
      else if e = 0x6E then 0x0A
      else if e = 0x66 then 0x0C
      else if e = 0x72 then 0x0D
      else e)"

fun unquoteBody :: "jsstring \<Rightarrow> jsstring" where
  "unquoteBody [] = []"
| "unquoteBody [b] = [b]"
| "unquoteBody (b # e # rest) =
     (if b \<noteq> 0x5C then b # unquoteBody (e # rest)
      else if e \<noteq> 0x75 then unescapeUnit e # unquoteBody rest
      else (case rest of
              h1 # h2 # h3 # h4 # r \<Rightarrow>
                of_nat (4096 * hexValue h1 + 256 * hexValue h2 + 16 * hexValue h3 + hexValue h4)
                  # unquoteBody r
            | _ \<Rightarrow> []))"

section \<open>The minimal server (\<open>src/server.js\<close>)\<close>

subsection \<open>The rewrite rules of transform mode\<close>

definition lmtFieldPattern :: jsstring where
  \<open>lmtFieldPattern = js ''"lmtFishnetFeedsUrl":"https://lt-fn.sir-sportradar.com"''\<close>

definition lmtFieldLocal :: jsstring where
  \<open>lmtFieldLocal = js ''"lmtFishnetFeedsUrl":"http://localhost:3001/api/lt-fn"''\<close>

definition cardsFieldPattern :: jsstring where
  \<open>cardsFieldPattern = js ''"cardsFishnetFeedsUrl":"https://ws-fn.sir-sportradar.com"''\<close>

definition cardsFieldLocal :: jsstring where
  \<open>cardsFieldLocal = js ''"cardsFishnetFeedsUrl":"http://localhost:3001/api/ws-fn"''\<close>

definition ltHost :: jsstring where
  "ltHost = js ''https://lt-fn.sir-sportradar.com''"

definition ltLocal :: jsstring where
  "ltLocal = js ''http://localhost:3001/api/lt-fn''"

definition wsHost :: jsstring where
  "wsHost = js ''https://ws-fn.sir-sportradar.com''"

definition wsLocal :: jsstring where
  "wsLocal = js ''http://localhost:3001/api/ws-fn''"

text \<open>The four \<open>responseText.replace\<close> calls of \<open>proxyRequest\<close>, in the order of the source.\<close>

definition rewriteResponseText :: "jsstring \<Rightarrow> jsstring" where
  "rewriteResponseText responseText =
     replaceAll wsHost wsLocal
       (replaceAll ltHost ltLocal
         (replaceAll cardsFieldPattern cardsFieldLocal
           (replaceAll lmtFieldPattern lmtFieldLocal responseText)))"

subsection \<open>Header objects and the response's header table\<close>

text \<open>
  A header value is a string or a list of strings; a property that an object does not
  have reads as \<open>undefined\<close>. An object of headers is the list of its properties in
  enumeration order.
\<close>

datatype hval = Undefined | HStr jsstring | HList "jsstring list"

type_synonym headerObject = "(jsstring \<times> hval) list"

definition getProp :: "headerObject \<Rightarrow> jsstring \<Rightarrow> hval" where
  "getProp obj k = (case map_of obj k of None \<Rightarrow> Undefined | Some v \<Rightarrow> v)"

definition truthy :: "hval \<Rightarrow> bool" where
  "truthy v = (case v of Undefined \<Rightarrow> False | HStr s \<Rightarrow> s \<noteq> [] | HList xs \<Rightarrow> True)"

text \<open>
  \<open>res.setHeader(name, value)\<close> of Node's \<open>http.ServerResponse\<close>: it throws when the
  name is not an HTTP token, when the value is \<open>undefined\<close> and when the value has a
  character outside tab, \<open>0x20..0x7e\<close> and \<open>0x80..0xff\<close>; otherwise it stores the pair
  under the lower-cased name, replacing what was stored there. Tokens are ASCII, so
  lower-casing touches \<open>A..Z\<close> only.
\<close>

datatype exn = ERR_INVALID_HTTP_TOKEN | ERR_HTTP_INVALID_HEADER_VALUE | ERR_INVALID_CHAR

type_synonym headerTable = "jsstring \<rightharpoonup> jsstring \<times> hval"

definition lowerUnit :: "utf16 \<Rightarrow> utf16" where
  "lowerUnit c = (if 0x41 \<le> c \<and> c \<le> 0x5A then c + 0x20 else c)"

definition toLowerCase :: "jsstring \<Rightarrow> jsstring" where
  "toLowerCase s = map lowerUnit s"

definition isTokenUnit :: "utf16 \<Rightarrow> bool" where
  "isTokenUnit c =
     ((0x61 \<le> c \<and> c \<le> 0x7A) \<or> (0x41 \<le> c \<and> c \<le> 0x5A) \<or> (0x30 \<le> c \<and> c \<le> 0x39)
      \<or> c \<in> set (js ''^_-!#$%&*+.|~'') \<or> c = 0x60 \<or> c = 0x27)"

definition checkIsHttpToken :: "jsstring \<Rightarrow> bool" where
  "checkIsHttpToken name = (name \<noteq> [] \<and> list_all isTokenUnit name)"

definition isHeaderUnit :: "utf16 \<Rightarrow> bool" where
  "isHeaderUnit c = (c = 0x09 \<or> (0x20 \<le> c \<and> c \<le> 0x7E) \<or> (0x80 \<le> c \<and> c \<le> 0xFF))"

definition checkInvalidHeaderChar :: "hval \<Rightarrow> bool" where
  "checkInvalidHeaderChar v =
     (case v of
        Undefined \<Rightarrow> False
      | HStr s \<Rightarrow> \<not> list_all isHeaderUnit s
      | HList xs \<Rightarrow> \<not> list_all (list_all isHeaderUnit) xs)"

definition setHeader :: "jsstring \<Rightarrow> hval \<Rightarrow> headerTable \<Rightarrow> exn + headerTable" where
  "setHeader name v table =
     (if \<not> checkIsHttpToken name then Inl ERR_INVALID_HTTP_TOKEN
      else if v = Undefined then Inl ERR_HTTP_INVALID_HEADER_VALUE
      else if checkInvalidHeaderChar v then Inl ERR_INVALID_CHAR
      else Inr (table(toLowerCase name \<mapsto> (name, v))))"

text \<open>\<open>Object.entries(obj).forEach(([key, value]) => res.setHeader(key, value))\<close>.\<close>

fun setHeaders :: "headerObject \<Rightarrow> headerTable \<Rightarrow> exn + headerTable" where
  "setHeaders [] table = Inr table"
| "setHeaders ((key, v) # rest) table =
     (case setHeader key v table of
        Inl e \<Rightarrow> Inl e
      | Inr table' \<Rightarrow> setHeaders rest table')"

text \<open>
  The loop of stream mode:
  \<open>try { if (value !== undefined) res.setHeader(key, value); } catch {}\<close>.
\<close>

fun forwardHeaders :: "headerObject \<Rightarrow> headerTable \<Rightarrow> headerTable" where
  "forwardHeaders [] table = table"
| "forwardHeaders ((key, v) # rest) table =
     forwardHeaders rest
       (if v \<noteq> Undefined
        then (case setHeader key v table of Inl e \<Rightarrow> table | Inr table' \<Rightarrow> table')
        else table)"

definition corsHeaders :: headerObject where
  "corsHeaders =
     [(js ''Access-Control-Allow-Origin'', HStr (js ''*'')),
      (js ''Access-Control-Allow-Methods'', HStr (js ''GET, POST, OPTIONS'')),
      (js ''Access-Control-Allow-Headers'', HStr (js ''Content-Type, Authorization, X-Requested-With'')),
      (js ''X-Frame-Options'', HStr (js ''SAMEORIGIN'')),
      (js ''X-Content-Type-Options'', HStr (js ''nosniff'')),
      (js ''X-XSS-Protection'', HStr (js ''1; mode=block'')),
      (js ''Referrer-Policy'', HStr (js ''strict-origin-when-cross-origin''))]"

subsection \<open>The runtime, the environment and the upstream\<close>

text \<open>
  What \<open>proxyRequest\<close> takes from the platform: the three synchronous decompressors of
  \<open>zlib\<close> (\<open>None\<close> where they throw), \<open>Buffer.prototype.toString\<close> (UTF-8 decoding) and
  \<open>Buffer.from(text, 'utf8')\<close>.
\<close>

record node =
  gunzipSync :: "bytes \<Rightarrow> bytes option"
  brotliDecompressSync :: "bytes \<Rightarrow> bytes option"
  inflateSync :: "bytes \<Rightarrow> bytes option"
  bufferToString :: "bytes \<Rightarrow> jsstring"
  bufferFromUtf8 :: "jsstring \<Rightarrow> bytes"

text \<open>
  \<open>process.env\<close> as the module reads it at start:
  \<open>PORT = process.env.PORT || 3001\<close>, and likewise \<open>NODE_ENV\<close> and \<open>LOG_LEVEL\<close>.
\<close>

record processEnv =
  envPORT :: "jsstring option"
  envNODE_ENV :: "jsstring option"
  envLOG_LEVEL :: "jsstring option"

definition orDefault :: "jsstring option \<Rightarrow> jsstring \<Rightarrow> jsstring" where
  "orDefault v d = (case v of None \<Rightarrow> d | Some s \<Rightarrow> if s = [] then d else s)"

definition PORT :: "processEnv \<Rightarrow> jsstring" where
  "PORT env = orDefault (envPORT env) (js ''3001'')"

definition NODE_ENV :: "processEnv \<Rightarrow> jsstring" where
  "NODE_ENV env = orDefault (envNODE_ENV env) (js ''development'')"

definition LOG_LEVEL :: "processEnv \<Rightarrow> jsstring" where
  "LOG_LEVEL env = orDefault (envLOG_LEVEL env) (js ''info'')"

text \<open>
  The upstream either answers (\<open>proxyRes\<close>: status code, header object, body chunks) or
  the request fails with an error message.
\<close>

record incomingMessage =
  statusCode :: nat
  inHeaders :: headerObject
  bodyChunks :: "bytes list"

datatype upstream = Responds incomingMessage | Fails jsstring

record serverResponse =
  resStatus :: nat
  resHeaders :: headerTable
  resBody :: bytes

subsection \<open>\<open>proxyRequest\<close>\<close>

definition decompress :: "node \<Rightarrow> hval \<Rightarrow> bytes \<Rightarrow> bytes" where
  "decompress rt contentEncoding bdata =
     (if contentEncoding = HStr (js ''gzip'')
      then (case gunzipSync rt bdata of Some d \<Rightarrow> d | None \<Rightarrow> bdata)
      else if contentEncoding = HStr (js ''br'')
      then (case brotliDecompressSync rt bdata of Some d \<Rightarrow> d | None \<Rightarrow> bdata)
      else if contentEncoding = HStr (js ''deflate'')
      then (case inflateSync rt bdata of Some d \<Rightarrow> d | None \<Rightarrow> bdata)
      else bdata)"

definition transformMode :: "node \<Rightarrow> incomingMessage \<Rightarrow> headerTable \<Rightarrow> exn + serverResponse" where
  "transformMode rt proxyRes table =
     (let upstreamHeaders = inHeaders proxyRes;
          contentEncoding = getProp upstreamHeaders (js ''content-encoding'');
          bdata = concat (bodyChunks proxyRes);
          finalData = decompress rt contentEncoding bdata;
          responseText = rewriteResponseText (bufferToString rt finalData);
          contentType = getProp upstreamHeaders (js ''content-type'');
          cacheControl = getProp upstreamHeaders (js ''cache-control'');
          buf = bufferFromUtf8 rt responseText
      in case setHeader (js ''Content-Type'')
                (if truthy contentType then contentType else HStr (js ''application/javascript''))
                table of
           Inl e \<Rightarrow> Inl e
         | Inr t1 \<Rightarrow>
             (case (if truthy cacheControl then setHeader (js ''Cache-Control'') cacheControl t1
                    else Inr t1) of
                Inl e \<Rightarrow> Inl e
              | Inr t2 \<Rightarrow>
                  (case setHeader (js ''Content-Length'') (HStr (numberToString (length buf))) t2 of
                     Inl e \<Rightarrow> Inl e
                   | Inr t3 \<Rightarrow>
                       Inr \<lparr>resStatus = statusCode proxyRes, resHeaders = t3, resBody = buf\<rparr>)))"

definition streamMode :: "incomingMessage \<Rightarrow> headerTable \<Rightarrow> serverResponse" where
  "streamMode proxyRes table =
     \<lparr>resStatus = statusCode proxyRes,
      resHeaders = forwardHeaders (inHeaders proxyRes) table,
      resBody = concat (bodyChunks proxyRes)\<rparr>"

text \<open>
  \<open>proxyRequest(targetUrl, req, res, opts)\<close>, given what the upstream at \<open>targetUrl\<close>
  does. \<open>Inl\<close> is an exception that leaves the response callback. The module constants
  read from the environment are in scope; the function does not use \<open>PORT\<close>.
\<close>

definition proxyRequest ::
  "processEnv \<Rightarrow> node \<Rightarrow> bool \<Rightarrow> upstream \<Rightarrow> exn + serverResponse" where
  "proxyRequest env rt rewriteWidgetScript up =
     (case up of
        Fails message \<Rightarrow>
          (case setHeaders corsHeaders Map.empty of
             Inl e \<Rightarrow> Inl e
           | Inr table \<Rightarrow>
               Inr \<lparr>resStatus = 500, resHeaders = table,
                    resBody = bufferFromUtf8 rt
                      (stringify (JObject [(js ''error'', JString (js ''Proxy Error'')),
                                           (js ''message'', JString message)]))\<rparr>)
      | Responds proxyRes \<Rightarrow>
          (case setHeaders corsHeaders Map.empty of
             Inl e \<Rightarrow> Inl e
           | Inr table \<Rightarrow>
               if \<not> rewriteWidgetScript then Inr (streamMode proxyRes table)
               else transformMode rt proxyRes table))"

text \<open>
  The header object of an \<open>IncomingMessage\<close> as Node's parser delivers it: the names are
  lower-case tokens, each once; the values are defined and have passed the parser's
  check of their characters.
\<close>

definition incomingHeaders :: "headerObject \<Rightarrow> bool" where
  "incomingHeaders hs =
     (distinct (map fst hs) \<and>
      list_all (\<lambda>kv. toLowerCase (fst kv) = fst kv \<and> checkIsHttpToken (fst kv) \<and>
                     snd kv \<noteq> Undefined \<and> \<not> checkInvalidHeaderChar (snd kv)) hs)"

definition decompressionFails :: "node \<Rightarrow> hval \<Rightarrow> bytes \<Rightarrow> bool" where
  "decompressionFails rt contentEncoding bdata =
     (contentEncoding = HStr (js ''gzip'') \<and> gunzipSync rt bdata = None \<or>
      contentEncoding = HStr (js ''br'') \<and> brotliDecompressSync rt bdata = None \<or>
      contentEncoding = HStr (js ''deflate'') \<and> inflateSync rt bdata = None)"

text \<open>
  What a run of accepted \<open>setHeader\<close> calls leaves in the table, and the test of
  \<open>setHeader\<close> for one property.
\<close>

definition storeAll :: "headerObject \<Rightarrow> headerTable \<Rightarrow> headerTable" where
  "storeAll hs table = fold (\<lambda>kv t. t(toLowerCase (fst kv) \<mapsto> kv)) hs table"

definition accepted :: "jsstring \<times> hval \<Rightarrow> bool" where
  "accepted kv =
     (checkIsHttpToken (fst kv) \<and> snd kv \<noteq> Undefined \<and> \<not> checkInvalidHeaderChar (snd kv))"

text \<open>A runtime and an upstream answer to evaluate the model on.\<close>

definition sampleRuntime :: node where
  "sampleRuntime =
     \<lparr>gunzipSync = (\<lambda>b. None), brotliDecompressSync = (\<lambda>b. None), inflateSync = (\<lambda>b. None),
      bufferToString = map ucast, bufferFromUtf8 = map ucast\<rparr>"

definition sampleEnv :: processEnv where
  "sampleEnv = \<lparr>envPORT = Some (js ''8001''), envNODE_ENV = None, envLOG_LEVEL = None\<rparr>"

definition sampleAnswer :: incomingMessage where
  "sampleAnswer =
     \<lparr>statusCode = 200,
      inHeaders = [(js ''content-type'', HStr (js ''text/javascript'')),
                   (js ''content-encoding'', HStr (js ''gzip'')),
                   (js ''x-frame-options'', HStr (js ''DENY''))],
      bodyChunks = [[0x68], [0x69]]\<rparr>"

subsection \<open>The request handler of \<open>http.createServer\<close>\<close>

text \<open>
  \<open>config.sportradar\<close> of \<open>server.js\<close>. The handler reads three files; \<open>None\<close> is a
  read that throws, which the handler catches and then falls through to the routes below.
\<close>

definition sportradarBaseUrl :: jsstring where
  "sportradarBaseUrl = js ''https://widgets.sir-sportradar.com''"

definition sportradarWidgetId :: jsstring where
  "sportradarWidgetId = js ''984c87dccac74331a2261fd032f80dbf''"

record fileSystem =
  demoHtml :: "jsstring option"
  themeCss :: "bytes option"
  previewHtml :: "jsstring option"

text \<open>
  What the handler does with a request: one of the fixed answers, a call of
  \<open>proxyRequest(targetUrl, req, res, {rewriteWidgetScript})\<close>, or an exception. The
  bodies of the fixed answers are not modelled beyond the file they serve; the preview
  page is served after its substitutions.
\<close>

datatype outcome =
    Preflight
  | Health
  | DemoPage jsstring
  | ThemeCss bytes
  | PreviewPage jsstring
  | ApiInfo
  | ProxyRequest jsstring bool
  | ReferenceError jsstring
  | NotFound

definition requestHandler :: "fileSystem \<Rightarrow> jsstring \<Rightarrow> jsstring \<Rightarrow> jsstring \<Rightarrow> outcome" where
  "requestHandler fs method pathname queryString =
     (if method = js ''OPTIONS'' then Preflight
      else if pathname = js ''/health'' then Health
      else
        case (if pathname = js ''/'' \<or> pathname = js ''/demo'' then demoHtml fs else None) of
          Some demoContent \<Rightarrow> DemoPage demoContent
        | None \<Rightarrow>
        (case (if pathname = js ''/loader/theme.css'' then themeCss fs else None) of
          Some css \<Rightarrow> ThemeCss css
        | None \<Rightarrow>
        (case (if pathname = js ''/loader/preview.html'' \<or> pathname = js ''/loader/preview''
               then previewHtml fs else None) of
          Some html \<Rightarrow> PreviewPage html
        | None \<Rightarrow>
          if pathname = js ''/api'' then ApiInfo
          else if prefix (js ''/proxy/sportradar/match.'') pathname
          then ProxyRequest
                 (sportradarBaseUrl @ js ''/'' @ sportradarWidgetId @ js ''/widgetloader'' @ queryString)
                 True
          else if pathname = js ''/'' @ sportradarWidgetId @ js ''/licensing''
          then ProxyRequest (sportradarBaseUrl @ pathname) False
          else if prefix (js ''/translations/'') pathname
          then ProxyRequest (sportradarBaseUrl @ pathname) False
          else if prefix (js ''/api/ws-fn/'') pathname \<or> prefix (js ''/api/lt-fn/'') pathname
          then (let apiType = (if prefix (js ''/api/ws-fn/'') pathname then js ''ws-fn'' else js ''lt-fn'');
                    apiPath = drop (length (js ''/api/'' @ apiType @ js ''/'')) pathname
                in ProxyRequest
                     (js ''https://'' @ apiType @ js ''.sir-sportradar.com/'' @ apiPath @ queryString)
                     False)
          else if prefix (js ''/proxy/sportradar/'') pathname
          then ReferenceError (js ''SPORTRADAR_BASE'')
          else if prefix (js ''/assets/'') pathname \<or> prefix (js ''/js/'') pathname
                  \<or> prefix (js ''/css/'') pathname
          then ProxyRequest (sportradarBaseUrl @ pathname) False
          else NotFound)))"

section \<open>The configuration-driven service (\<open>ProxyService\<close> and its router)\<close>

subsection \<open>Configuration\<close>

text \<open>
  The configuration object as \<open>loadConfig\<close> returns it, as far as the service reads it.
  An object keyed by names is the list of its properties. A number that may be missing
  is an \<open>option\<close>; \<open>0\<close> and a missing number are falsy.
\<close>

record widgetTypeConfig =
  path :: jsstring

record providerTtl =
  scripts :: "nat option"
  assets :: "nat option"
  chunks :: "nat option"

record providerConfig =
  providerName :: jsstring
  baseUrl :: jsstring
  widgetId :: "jsstring option"
  widgetTypes :: "(jsstring \<times> widgetTypeConfig) list"
  defaultHeaders :: headerObject
  providerCache :: "providerTtl option"

record cacheConfig =
  defaultTtl :: nat
  maxKeys :: "nat option"

record config =
  providers :: "(jsstring \<times> providerConfig) list"
  cache :: cacheConfig

text \<open>\<open>getDefaultConfig()\<close>, the fallback of \<open>loadConfig\<close>.\<close>

definition getDefaultConfig :: config where
  "getDefaultConfig =
     \<lparr>providers =
        [(js ''sportradar'',
          \<lparr>providerName = js ''SportRadar'',
           baseUrl = js ''https://widgets.sir-sportradar.com'',
           widgetId = None,
           widgetTypes =
             [(js ''match.lmtPlus'', \<lparr>path = js ''/{widgetId}/widgetloader''\<rparr>),
              (js ''match.preview'', \<lparr>path = js ''/{widgetId}/widgetloader''\<rparr>)],
           defaultHeaders =
             [(js ''User-Agent'', HStr (js ''KakBet-Widget-Proxy/1.0'')),
              (js ''Accept'', HStr (js ''*/*'')),
              (js ''Accept-Encoding'', HStr (js ''gzip, deflate, br''))],
           providerCache = Some \<lparr>scripts = Some 300, assets = Some 3600, chunks = None\<rparr>\<rparr>)],
      cache = \<lparr>defaultTtl = 300, maxKeys = Some 1000\<rparr>\<rparr>"

definition orElse :: "nat option \<Rightarrow> nat \<Rightarrow> nat" where
  "orElse v d = (case v of None \<Rightarrow> d | Some n \<Rightarrow> if n = 0 then d else n)"

subsection \<open>The Cache Store\<close>

text \<open>
  Modelled from the spec: the store is the \<open>node-cache\<close> package, which is not among
  the sources. After the spec (CacheEntry, Cache Store): an entry holds the value, its
  insertion time and its TTL in seconds, and is never returned once
  \<open>now - insertion > TTL\<close>; \<open>set\<close> replaces the entry of its key as a whole; once the
  configured number of keys is reached, \<open>set\<close> of a new key evicts by oldest insertion.
  The list is in insertion order. The clock counts seconds.
\<close>

record 'v cacheEntry =
  cached :: 'v
  inserted :: nat
  ttl :: nat

type_synonym 'v cacheStore = "(jsstring \<times> 'v cacheEntry) list"

definition cacheGet :: "'v cacheStore \<Rightarrow> jsstring \<Rightarrow> nat \<Rightarrow> 'v option" where
  "cacheGet store k now =
     (case map_of store k of
        None \<Rightarrow> None
      | Some e \<Rightarrow> if now - inserted e > ttl e then None else Some (cached e))"

definition cacheSet ::
  "nat option \<Rightarrow> 'v cacheStore \<Rightarrow> jsstring \<Rightarrow> 'v \<Rightarrow> nat \<Rightarrow> nat \<Rightarrow> 'v cacheStore" where
  "cacheSet limit store k v ttlSeconds now =
     (let others = filter (\<lambda>entry. fst entry \<noteq> k) store;
          kept = (case limit of
                    None \<Rightarrow> others
                  | Some n \<Rightarrow> drop (Suc (length others) - n) others)
      in kept @ [(k, \<lparr>cached = v, inserted = now, ttl = ttlSeconds\<rparr>)])"

subsection \<open>The HTTP client\<close>

text \<open>
  What the upstream does with the one request of a call: the request fails, or an answer
  arrives. \<open>validateStatus: (status) => status < 500\<close> makes \<open>httpClient.get\<close> throw
  on the other answers. An \<open>Error\<close> made by \<open>new Error(message)\<close> has no \<open>status\<close>.
\<close>

datatype payload = Text jsstring | Binary bytes

datatype axiosReply = NetworkError jsstring | HttpReply nat headerObject payload

record axiosResponse =
  responseStatus :: nat
  responseHeaders :: headerObject
  responseData :: payload

record jsError =
  message :: jsstring
  errorStatus :: "nat option"

definition newError :: "jsstring \<Rightarrow> jsError" where
  "newError m = \<lparr>message = m, errorStatus = None\<rparr>"

definition validateStatus :: "nat \<Rightarrow> bool" where
  "validateStatus st = (st < 500)"

definition httpClientGet :: "axiosReply \<Rightarrow> jsError + axiosResponse" where
  "httpClientGet reply =
     (case reply of
        NetworkError m \<Rightarrow> Inl (newError m)
      | HttpReply st hs d \<Rightarrow>
          if validateStatus st
          then Inr \<lparr>responseStatus = st, responseHeaders = hs, responseData = d\<rparr>
          else Inl (newError (js ''Request failed with status code '' @ numberToString st)))"

record axiosRequest =
  url :: jsstring
  requestHeaderObject :: headerObject
  params :: "(jsstring \<times> json) list"
  responseType :: jsstring

subsection \<open>\<open>ProxyService\<close>\<close>

record proxyResult =
  status :: nat
  data :: payload
  contentType :: hval
  headers :: headerObject

text \<open>
  The state of a \<open>ProxyService\<close>: its cache, and the requests its HTTP client has
  sent so far (one entry for each upstream fetch).
\<close>

record proxyService =
  nodeCache :: "proxyResult cacheStore"
  sent :: "axiosRequest list"

record requestHeaders =
  userAgent :: "jsstring option"
  referer :: "jsstring option"
  acceptEncoding :: "jsstring option"

text \<open>Assignment to a property of an object: in place when the object has it, else last.\<close>

fun setProp :: "headerObject \<Rightarrow> jsstring \<Rightarrow> hval \<Rightarrow> headerObject" where
  "setProp [] k v = [(k, v)]"
| "setProp ((k', v') # rest) k v = (if k' = k then (k, v) # rest else (k', v') # setProp rest k v)"

definition orHeader :: "jsstring option \<Rightarrow> hval \<Rightarrow> hval" where
  "orHeader v d = (case v of None \<Rightarrow> d | Some s \<Rightarrow> if s = [] then d else HStr s)"

definition upstreamHeaders :: "providerConfig \<Rightarrow> requestHeaders \<Rightarrow> headerObject" where
  "upstreamHeaders providerConfig rh =
     (let h1 = setProp (defaultHeaders providerConfig) (js ''User-Agent'')
                 (orHeader (userAgent rh) (getProp (defaultHeaders providerConfig) (js ''User-Agent'')));
          h2 = setProp h1 (js ''Referer'') (orHeader (referer rh) (HStr (js ''https://kakbet.com'')))
      in case acceptEncoding rh of
           None \<Rightarrow> h2
         | Some enc \<Rightarrow> if enc = [] then h2 else setProp h2 (js ''Accept-Encoding'') (HStr enc))"

definition buildResponseHeaders :: "headerObject \<Rightarrow> jsstring \<Rightarrow> headerObject" where
  "buildResponseHeaders originalHeaders resourceType =
     (let h0 = [(js ''Access-Control-Allow-Origin'', HStr (js ''*'')),
                (js ''Access-Control-Allow-Methods'', HStr (js ''GET, POST, OPTIONS'')),
                (js ''Access-Control-Allow-Headers'',
                   HStr (js ''Content-Type, Authorization, X-Requested-With'')),
                (js ''X-Frame-Options'', HStr (js ''SAMEORIGIN'')),
                (js ''X-Content-Type-Options'', HStr (js ''nosniff''))];
          h1 = (if truthy (getProp originalHeaders (js ''content-type''))
                then setProp h0 (js ''Content-Type'') (getProp originalHeaders (js ''content-type''))
                else h0);
          h2 = (if truthy (getProp originalHeaders (js ''content-encoding''))
                then setProp h1 (js ''Content-Encoding'') (getProp originalHeaders (js ''content-encoding''))
                else h1)
      in if truthy (getProp originalHeaders (js ''cache-control''))
         then setProp h2 (js ''Cache-Control'') (getProp originalHeaders (js ''cache-control''))
         else setProp h2 (js ''Cache-Control'')
                (if resourceType = js ''script'' then HStr (js ''public, max-age=300'')
                 else HStr (js ''public, max-age=3600'')))"

text \<open>
  \<open>text.replace(pattern, replacement)\<close> with a string pattern: the first occurrence only.
  (A \<open>$\<close> in the replacement is not interpreted here.)
\<close>

fun replaceFirst :: "jsstring \<Rightarrow> jsstring \<Rightarrow> jsstring \<Rightarrow> jsstring" where
  "replaceFirst p r [] = (if p = [] then r else [])"
| "replaceFirst p r (c # cs) =
     (if prefix p (c # cs) then r @ drop (length p) (c # cs) else c # replaceFirst p r cs)"

definition quoted :: "jsstring \<Rightarrow> jsstring" where
  "quoted s = 0x27 # s @ [0x27]"

definition widgetCacheKey :: "jsstring \<Rightarrow> jsstring \<Rightarrow> (jsstring \<times> json) list \<Rightarrow> jsstring" where
  "widgetCacheKey provider widgetType queryParams =
     js ''widget:'' @ provider @ js '':'' @ widgetType @ js '':'' @ stringify (JObject queryParams)"

definition assetCacheKey :: "jsstring \<Rightarrow> jsstring \<Rightarrow> jsstring" where
  "assetCacheKey provider assetPath = js ''asset:'' @ provider @ js '':'' @ assetPath"

definition widgetCacheTtl :: "config \<Rightarrow> providerConfig \<Rightarrow> nat" where
  "widgetCacheTtl cfg providerConfig =
     orElse (case providerCache providerConfig of None \<Rightarrow> None | Some c \<Rightarrow> scripts c)
       (defaultTtl (cache cfg))"

text \<open>
  The pieces of \<open>proxyWidget\<close>: \<open>targetUrl\<close>, the request given to \<open>httpClient.get\<close>
  and \<open>result\<close>.
\<close>

definition widgetTargetUrl :: "providerConfig \<Rightarrow> widgetTypeConfig \<Rightarrow> jsstring" where
  "widgetTargetUrl providerConfig widgetConfig =
     (let widgetPath = replaceFirst (js ''{widgetId}'')
                         (case widgetId providerConfig of None \<Rightarrow> js ''undefined'' | Some w \<Rightarrow> w)
                         (path widgetConfig)
      in baseUrl providerConfig @ widgetPath)"

definition widgetRequest ::
  "providerConfig \<Rightarrow> widgetTypeConfig \<Rightarrow> (jsstring \<times> json) list \<Rightarrow> requestHeaders \<Rightarrow> axiosRequest" where
  "widgetRequest providerConfig widgetConfig queryParams rh =
     \<lparr>url = widgetTargetUrl providerConfig widgetConfig,
      requestHeaderObject = upstreamHeaders providerConfig rh,
      params = queryParams, responseType = js ''text''\<rparr>"

definition widgetResult :: "axiosResponse \<Rightarrow> proxyResult" where
  "widgetResult response =
     \<lparr>status = responseStatus response,
      data = responseData response,
      contentType =
        (if truthy (getProp (responseHeaders response) (js ''content-type''))
         then getProp (responseHeaders response) (js ''content-type'')
         else HStr (js ''application/javascript'')),
      headers = buildResponseHeaders (responseHeaders response) (js ''script'')\<rparr>"

text \<open>
  \<open>proxyWidget\<close>. The surroundings of a call: \<open>now\<close> is the clock when the call reads
  the cache, \<open>reply\<close> is what the upstream does with the request, and \<open>took\<close> is the
  number of seconds that \<open>await this.httpClient.get(...)\<close> takes, so that the entry is
  written by \<open>this.cache.set\<close> at \<open>now + took\<close>. Calls follow one another: a call starts
  in the state that the call before it left.
\<close>

definition proxyWidget ::
  "config \<Rightarrow> nat \<Rightarrow> nat \<Rightarrow> axiosReply \<Rightarrow> jsstring \<Rightarrow> jsstring \<Rightarrow> (jsstring \<times> json) list \<Rightarrow>
   requestHeaders \<Rightarrow> proxyService \<Rightarrow> (jsError + proxyResult) \<times> proxyService" where
  "proxyWidget cfg now took reply provider widgetType queryParams rh svc =
     (case map_of (providers cfg) provider of
        None \<Rightarrow> (Inl (newError (js ''Provider '' @ quoted provider @ js '' not found'')), svc)
      | Some providerConfig \<Rightarrow>
        (case map_of (widgetTypes providerConfig) widgetType of
           None \<Rightarrow>
             (Inl (newError (js ''Widget type '' @ quoted widgetType @ js '' not found for provider ''
                             @ quoted provider)), svc)
         | Some widgetConfig \<Rightarrow>
           (let cacheKey = widgetCacheKey provider widgetType queryParams
            in case cacheGet (nodeCache svc) cacheKey now of
                 Some hit \<Rightarrow> (Inr hit, svc)
               | None \<Rightarrow>
                 (let svc1 = svc\<lparr>sent := sent svc @ [widgetRequest providerConfig widgetConfig queryParams rh]\<rparr>
                  in case httpClientGet reply of
                       Inl error \<Rightarrow>
                         (Inl (newError (js ''Failed to fetch widget: '' @ message error)), svc1)
                     | Inr response \<Rightarrow>
                         (let result = widgetResult response;
                              cacheTtl = widgetCacheTtl cfg providerConfig
                          in (Inr result,
                              svc1\<lparr>nodeCache :=
                                     cacheSet (maxKeys (cache cfg)) (nodeCache svc1) cacheKey result
                                       cacheTtl (now + took)\<rparr>))))))"

text \<open>
  \<open>assetPath.split('.').pop()?.toLowerCase()\<close>: what follows the last dot, or the whole
  path when it has none. The extensions it is compared with are ASCII.
\<close>

definition extensionOf :: "jsstring \<Rightarrow> jsstring" where
  "extensionOf assetPath = toLowerCase (rev (takeWhile (\<lambda>c. c \<noteq> 0x2E) (rev assetPath)))"

definition getResponseType :: "jsstring \<Rightarrow> jsstring" where
  "getResponseType assetPath =
     (if extensionOf assetPath \<in> set [js ''png'', js ''jpg'', js ''jpeg'', js ''gif'', js ''webp'', js ''ico'']
      then js ''arraybuffer'' else js ''text'')"

definition getContentType :: "jsstring \<Rightarrow> jsstring" where
  "getContentType assetPath =
     (case map_of
        [(js ''js'', js ''application/javascript''), (js ''css'', js ''text/css''),
         (js ''html'', js ''text/html''), (js ''json'', js ''application/json''),
         (js ''png'', js ''image/png''), (js ''jpg'', js ''image/jpeg''),
         (js ''jpeg'', js ''image/jpeg''), (js ''gif'', js ''image/gif''),
         (js ''webp'', js ''image/webp''), (js ''ico'', js ''image/x-icon''),
         (js ''svg'', js ''image/svg+xml'')] (extensionOf assetPath) of
        Some t \<Rightarrow> t
      | None \<Rightarrow> js ''application/octet-stream'')"

definition getAssetCacheTtl :: "providerConfig \<Rightarrow> jsstring \<Rightarrow> nat" where
  "getAssetCacheTtl providerConfig assetPath =
     (let c = providerCache providerConfig;
          assetsTtl = orElse (case c of None \<Rightarrow> None | Some t \<Rightarrow> assets t) 3600
      in if extensionOf assetPath = js ''js''
         then (if sublist (js ''chunk.'') assetPath
               then orElse (case c of None \<Rightarrow> None | Some t \<Rightarrow> chunks t) 1800
               else assetsTtl)
         else assetsTtl)"

definition assetRequest :: "providerConfig \<Rightarrow> jsstring \<Rightarrow> requestHeaders \<Rightarrow> axiosRequest" where
  "assetRequest providerConfig assetPath rh =
     \<lparr>url = baseUrl providerConfig @ assetPath,
      requestHeaderObject = upstreamHeaders providerConfig rh,
      params = [], responseType = getResponseType assetPath\<rparr>"

definition assetResult :: "jsstring \<Rightarrow> axiosResponse \<Rightarrow> proxyResult" where
  "assetResult assetPath response =
     \<lparr>status = responseStatus response,
      data = responseData response,
      contentType =
        (if truthy (getProp (responseHeaders response) (js ''content-type''))
         then getProp (responseHeaders response) (js ''content-type'')
         else HStr (getContentType assetPath)),
      headers = buildResponseHeaders (responseHeaders response) (js ''asset'')\<rparr>"

definition proxyAsset ::
  "config \<Rightarrow> nat \<Rightarrow> nat \<Rightarrow> axiosReply \<Rightarrow> jsstring \<Rightarrow> jsstring \<Rightarrow> requestHeaders \<Rightarrow> proxyService \<Rightarrow>
   (jsError + proxyResult) \<times> proxyService" where
  "proxyAsset cfg now took reply provider assetPath rh svc =
     (case map_of (providers cfg) provider of
        None \<Rightarrow> (Inl (newError (js ''Provider '' @ quoted provider @ js '' not found'')), svc)
      | Some providerConfig \<Rightarrow>
        (let cacheKey = assetCacheKey provider assetPath
         in case cacheGet (nodeCache svc) cacheKey now of
              Some hit \<Rightarrow> (Inr hit, svc)
            | None \<Rightarrow>
              (let svc1 = svc\<lparr>sent := sent svc @ [assetRequest providerConfig assetPath rh]\<rparr>
               in case httpClientGet reply of
                    Inl error \<Rightarrow>
                      (Inl (newError (js ''Failed to fetch asset: '' @ message error)), svc1)
                  | Inr response \<Rightarrow>
                      (let result = assetResult assetPath response;
                           cacheTtl = getAssetCacheTtl providerConfig assetPath
                       in (Inr result,
                           svc1\<lparr>nodeCache :=
                                  cacheSet (maxKeys (cache cfg)) (nodeCache svc1) cacheKey result
                                    cacheTtl (now + took)\<rparr>)))))"

subsection \<open>The router (\<open>createProxyRouter\<close>)\<close>

text \<open>
  What a route handler answers: the status, the headers given to \<open>res.set\<close>, the type
  given to \<open>res.type\<close>, and the body given to \<open>res.send\<close> or \<open>res.json\<close>.
\<close>

datatype body = Send payload | Json json

record httpReply =
  replyStatus :: nat
  replyHeaders :: headerObject
  replyType :: "hval option"
  replyBody :: body

definition sendResult :: "proxyResult \<Rightarrow> httpReply" where
  "sendResult result =
     \<lparr>replyStatus = status result,
      replyHeaders = headers result,
      replyType = (if truthy (contentType result) then Some (contentType result) else None),
      replyBody = Send (data result)\<rparr>"

definition sendError :: "jsError \<Rightarrow> jsstring \<Rightarrow> (jsstring \<times> json) list \<Rightarrow> httpReply" where
  "sendError error title identifiers =
     \<lparr>replyStatus = orElse (errorStatus error) 500,
      replyHeaders = [],
      replyType = None,
      replyBody = Json (JObject ([(js ''error'', JString title),
                                  (js ''message'', JString (message error))] @ identifiers))\<rparr>"

text \<open>\<open>router.get('/:provider/:widgetType', ...)\<close>\<close>

definition widgetRoute ::
  "config \<Rightarrow> nat \<Rightarrow> nat \<Rightarrow> axiosReply \<Rightarrow> jsstring \<Rightarrow> jsstring \<Rightarrow> (jsstring \<times> json) list \<Rightarrow>
   requestHeaders \<Rightarrow> proxyService \<Rightarrow> httpReply \<times> proxyService" where
  "widgetRoute cfg now took reply provider widgetType queryParams rh svc =
     (case proxyWidget cfg now took reply provider widgetType queryParams rh svc of
        (Inr result, svc') \<Rightarrow> (sendResult result, svc')
      | (Inl error, svc') \<Rightarrow>
          (sendError error (js ''Proxy Error'')
             [(js ''provider'', JString provider), (js ''widgetType'', JString widgetType)], svc'))"

text \<open>\<open>router.get('/:provider/assets/*', ...)\<close>\<close>

definition assetRoute ::
  "config \<Rightarrow> nat \<Rightarrow> nat \<Rightarrow> axiosReply \<Rightarrow> jsstring \<Rightarrow> jsstring \<Rightarrow> requestHeaders \<Rightarrow> proxyService \<Rightarrow>
   httpReply \<times> proxyService" where
  "assetRoute cfg now took reply provider assetPath rh svc =
     (case proxyAsset cfg now took reply provider (js ''/assets/'' @ assetPath) rh svc of
        (Inr result, svc') \<Rightarrow> (sendResult result, svc')
      | (Inl error, svc') \<Rightarrow>
          (sendError error (js ''Asset Proxy Error'')
             [(js ''provider'', JString provider), (js ''assetPath'', JString assetPath)], svc'))"

text \<open>\<open>router.get('/:provider/:assetType/*', ...)\<close>\<close>

definition genericAssetRoute ::
  "config \<Rightarrow> nat \<Rightarrow> nat \<Rightarrow> axiosReply \<Rightarrow> jsstring \<Rightarrow> jsstring \<Rightarrow> jsstring \<Rightarrow> requestHeaders \<Rightarrow>
   proxyService \<Rightarrow> httpReply \<times> proxyService" where
  "genericAssetRoute cfg now took reply provider assetType assetPath rh svc =
     (let fullPath = js ''/'' @ assetType @ js ''/'' @ assetPath
      in case proxyAsset cfg now took reply provider fullPath rh svc of
           (Inr result, svc') \<Rightarrow> (sendResult result, svc')
         | (Inl error, svc') \<Rightarrow>
             (sendError error (js ''Asset Proxy Error'')
                [(js ''provider'', JString provider), (js ''path'', JString fullPath)], svc'))"

text \<open>
  \<open>router.get('/:provider', ...)\<close>, the provider info endpoint. A provider without cache
  settings has no \<open>cache\<close> property in the answer.
\<close>

definition ttlJson :: "providerTtl \<Rightarrow> json" where
  "ttlJson t =
     JObject (concat
       [case scripts t of None \<Rightarrow> [] | Some n \<Rightarrow> [(js ''scripts'', JNumber n)],
        case assets t of None \<Rightarrow> [] | Some n \<Rightarrow> [(js ''assets'', JNumber n)],
        case chunks t of None \<Rightarrow> [] | Some n \<Rightarrow> [(js ''chunks'', JNumber n)]])"

definition providerInfoRoute :: "config \<Rightarrow> jsstring \<Rightarrow> httpReply" where
  "providerInfoRoute cfg provider =
     (case map_of (providers cfg) provider of
        None \<Rightarrow>
          \<lparr>replyStatus = 404, replyHeaders = [], replyType = None,
           replyBody = Json (JObject
             [(js ''error'', JString (js ''Provider Not Found'')),
              (js ''message'', JString (js ''Provider '' @ quoted provider @ js '' is not configured'')),
              (js ''availableProviders'', JArray (map (\<lambda>p. JString (fst p)) (providers cfg)))])\<rparr>
      | Some providerConfig \<Rightarrow>
          \<lparr>replyStatus = 200, replyHeaders = [], replyType = None,
           replyBody = Json (JObject
             ([(js ''provider'', JString provider),
               (js ''name'', JString (providerName providerConfig)),
               (js ''baseUrl'', JString (baseUrl providerConfig)),
               (js ''widgetTypes'', JArray (map (\<lambda>w. JString (fst w)) (widgetTypes providerConfig)))]
              @ (case providerCache providerConfig of
                   None \<Rightarrow> []
                 | Some t \<Rightarrow> [(js ''cache'', ttlJson t)])))\<rparr>)"

text \<open>A service that has cached nothing and sent nothing, and the headers of a plain request.\<close>

definition newService :: proxyService where
  "newService = \<lparr>nodeCache = [], sent = []\<rparr>"

definition noRequestHeaders :: requestHeaders where
  "noRequestHeaders = \<lparr>userAgent = None, referer = None, acceptEncoding = None\<rparr>"

definition sampleScript :: axiosReply where
  "sampleScript = HttpReply 200 [(js ''content-type'', HStr (js ''application/javascript''))] (Text (js ''SIR()''))"

section \<open>The embedding of literals\<close>

lemma unat_of_char_utf16: "unat (of_char c :: utf16) = of_char c"
proof -
  have "(of_char c :: nat) < 256"
    by (rule nat_of_char_less_256)
  also have "(256 :: nat) \<le> 2 ^ LENGTH(16)"
    by simp
  finally have "(of_char c :: nat) mod 2 ^ LENGTH(16) = of_char c"
    by (rule mod_less)
  then have "unat (of_nat (of_char c) :: utf16) = of_char c"
    by (simp only: unat_of_nat)
  then show ?thesis by (simp only: of_nat_of_char)
qed

lemma of_char_utf16_eq_iff [simp]: "(of_char c :: utf16) = of_char d \<longleftrightarrow> c = d"
proof
  assume "(of_char c :: utf16) = of_char d"
  then have "unat (of_char c :: utf16) = unat (of_char d :: utf16)" by simp
  then show "c = d" by (simp only: unat_of_char_utf16 of_char_eq_iff)
qed simp

lemma js_eq_iff [simp]: "js a = js b \<longleftrightarrow> a = b"
  unfolding js_def by (rule inj_map_eq_map) (simp add: inj_def)



lemma prefix_js [simp]: "prefix (js a) (js b) \<longleftrightarrow> prefix a b"
proof (induction a arbitrary: b)
  case Nil
  show ?case by (simp add: js_def)
next
  case (Cons x xs)
  show ?case
  proof (cases b)
    case Nil
    then show ?thesis by (simp add: js_def)
  next
    case (Cons y ys)
    with Cons.IH [of ys] show ?thesis by (simp add: js_def)
  qed
qed

lemma prefix_js_exclusive:
  "prefix (js a) p \<Longrightarrow> \<not> prefix a b \<Longrightarrow> \<not> prefix b a \<Longrightarrow> \<not> prefix (js b) p"
  using prefix_same_cases [of "js a" p "js b"] by auto

lemma js_append: "js a @ js b = js (a @ b)"
  by (simp add: js_def)

section \<open>Properties of the global replacement\<close>

lemma replaceAll_absent: "\<not> sublist p t \<Longrightarrow> replaceAll p r t = t"
proof (induction t)
  case Nil
  show ?case by simp
next
  case (Cons c cs)
  from Cons.prems have "\<not> prefix p (c # cs)" and "\<not> sublist p cs"
    by (auto simp: sublist_Cons_right)
  with Cons.IH show ?case by simp
qed

lemma prefix_replaceAll_source:
  "r \<noteq> [] \<Longrightarrow> hd r \<notin> set s \<Longrightarrow> prefix s (replaceAll p r t) \<Longrightarrow> prefix s t"
proof (induction p r t arbitrary: s rule: replaceAll.induct)
  case (1 p r)
  then show ?case by simp
next
  case (2 p r c cs)
  show ?case
  proof (cases s)
    case Nil
    then show ?thesis by simp
  next
    case (Cons x s')
    show ?thesis
    proof (cases "p \<noteq> [] \<and> prefix p (c # cs)")
      case True
      with "2.prems"(3) have "prefix (x # s') (r @ replaceAll p r (drop (length p) (c # cs)))"
        using Cons by simp
      with \<open>r \<noteq> []\<close> have "x = hd r"
        by (cases r) (auto simp: prefix_Cons)
      with "2.prems"(2) Cons show ?thesis by simp
    next
      case False
      with "2.prems"(3) Cons have x: "x = c" and p: "prefix s' (replaceAll p r cs)"
        by auto
      from "2.prems"(2) Cons have "hd r \<notin> set s'" by simp
      with "2.IH"(2) [OF False \<open>r \<noteq> []\<close> _ p] have "prefix s' cs" by simp
      with x Cons show ?thesis by simp
    qed
  qed
qed

lemma prefix_append_agree: "prefix q (s @ rest) \<Longrightarrow> agree q s"
proof -
  assume "prefix q (s @ rest)"
  then obtain zs where "s @ rest = q @ zs"
    by (auto simp: prefix_def)
  then have q: "take (length q) (s @ rest) = q"
    by simp
  show ?thesis
  proof (cases "length q \<le> length s")
    case True
    with q have "take (length q) s = q" by simp
    with True show ?thesis by (simp add: agree_def)
  next
    case False
    then have "take (length s) (take (length q) (s @ rest)) = s"
      by (simp add: min_def)
    with q False show ?thesis by (simp add: agree_def)
  qed
qed

lemma startsInside_iff: "startsInside q s \<longleftrightarrow> (\<exists>k<length s. agree q (drop k s))"
  by (auto simp: startsInside_def list_ex_iff)

lemma sublist_append_cases:
  "sublist q (s @ rest) \<Longrightarrow> startsInside q s \<or> sublist q rest"
proof (induction s)
  case Nil
  then show ?case by simp
next
  case (Cons x xs)
  from Cons.prems have "prefix q ((x # xs) @ rest) \<or> sublist q (xs @ rest)"
    by (simp add: sublist_Cons_right)
  then show ?case
  proof
    assume "prefix q ((x # xs) @ rest)"
    then have "agree q (drop 0 (x # xs))"
      by (simp add: prefix_append_agree del: append_Cons)
    then show ?thesis
      unfolding startsInside_iff by (intro disjI1 exI [of _ 0]) simp
  next
    assume "sublist q (xs @ rest)"
    with Cons.IH have "startsInside q xs \<or> sublist q rest" .
    then show ?thesis
    proof
      assume "startsInside q xs"
      then obtain k where "k < length xs" "agree q (drop k xs)"
        unfolding startsInside_iff by blast
      then have "Suc k < length (x # xs) \<and> agree q (drop (Suc k) (x # xs))"
        by simp
      then show ?thesis
        unfolding startsInside_iff by blast
    qed simp
  qed
qed

text \<open>
  No occurrence of \<open>q\<close> is left behind by the replacement when every occurrence of \<open>q\<close>
  in the text is the start of a match, \<open>q\<close> cannot start inside a replacement, and the
  replacement's first code unit does not occur in the tail of \<open>q\<close>.
\<close>

lemma replaceAll_match:
  "p \<noteq> [] \<Longrightarrow> prefix p (c # cs) \<Longrightarrow>
   replaceAll p r (c # cs) = r @ replaceAll p r (drop (length p) (c # cs))"
  by (simp only: replaceAll.simps simp_thms if_True)

lemma replaceAll_copy:
  "\<not> (p \<noteq> [] \<and> prefix p (c # cs)) \<Longrightarrow> replaceAll p r (c # cs) = c # replaceAll p r cs"
  by (simp only: replaceAll.simps if_False)

lemma replaceAll_no_occurrence:
  assumes "q \<noteq> []" and "r \<noteq> []" and "hd r \<notin> set (tl q)" and "\<not> startsInside q r"
    and "\<And>u. suffix u t \<Longrightarrow> prefix q u \<Longrightarrow> p \<noteq> [] \<and> prefix p u"
  shows "\<not> sublist q (replaceAll p r t)"
  using assms
proof (induction p r t rule: replaceAll.induct)
  case (1 p r)
  then show ?case by simp
next
  case (2 p r c cs)
  note match = "2.prems"(5)
  show ?case
  proof (cases "p \<noteq> [] \<and> prefix p (c # cs)")
    case True
    have "\<not> sublist q (replaceAll p r (drop (length p) (c # cs)))"
    proof (rule "2.IH"(1) [OF True "2.prems"(1-4)])
      fix u
      assume suf: "suffix u (drop (length p) (c # cs))" and pre: "prefix q u"
      from suf have "suffix u (c # cs)"
        by (rule suffix_order.trans) (rule suffix_drop)
      then show "p \<noteq> [] \<and> prefix p u"
        using pre by (rule match)
    qed
    with \<open>\<not> startsInside q r\<close> have "\<not> sublist q (r @ replaceAll p r (drop (length p) (c # cs)))"
      using sublist_append_cases [of q r] by blast
    moreover from True
    have "replaceAll p r (c # cs) = r @ replaceAll p r (drop (length p) (c # cs))"
      by (blast intro: replaceAll_match)
    ultimately show ?thesis
      by (simp only: simp_thms)
  next
    case False
    have rest: "\<not> sublist q (replaceAll p r cs)"
    proof (rule "2.IH"(2) [OF False "2.prems"(1-4)])
      fix u
      assume suf: "suffix u cs" and pre: "prefix q u"
      from suf have "suffix u (c # cs)"
        by (rule suffix_ConsI)
      then show "p \<noteq> [] \<and> prefix p u"
        using pre by (rule match)
    qed
    have "\<not> prefix q (c # replaceAll p r cs)"
    proof
      assume pre: "prefix q (c # replaceAll p r cs)"
      from \<open>q \<noteq> []\<close> obtain a q' where q: "q = a # q'"
        by (cases q) auto
      with pre have "a = c" and q': "prefix q' (replaceAll p r cs)"
        by auto
      from q \<open>hd r \<notin> set (tl q)\<close> have "hd r \<notin> set q'"
        by simp
      with \<open>r \<noteq> []\<close> have "prefix q' cs"
        using q' by (rule prefix_replaceAll_source)
      with q \<open>a = c\<close> have "prefix q (c # cs)" by simp
      then have "p \<noteq> [] \<and> prefix p (c # cs)"
        by (rule match [OF suffix_order.refl])
      with False show False ..
    qed
    with rest have "\<not> sublist q (c # replaceAll p r cs)"
      by (simp add: sublist_Cons_right)
    moreover from False have "replaceAll p r (c # cs) = c # replaceAll p r cs"
      by (rule replaceAll_copy)
    ultimately show ?thesis
      by (simp only: simp_thms)
  qed
qed

lemma replaceAll_removes:
  assumes "p \<noteq> []" and "r \<noteq> []" and "hd r \<notin> set (tl p)" and "\<not> startsInside p r"
  shows "\<not> sublist p (replaceAll p r t)"
  using assms by (intro replaceAll_no_occurrence) auto

lemma replaceAll_keeps_absent:
  assumes "q \<noteq> []" and "r \<noteq> []" and "hd r \<notin> set (tl q)" and "\<not> startsInside q r"
    and "\<not> sublist q t"
  shows "\<not> sublist q (replaceAll p r t)"
proof (rule replaceAll_no_occurrence [OF assms(1-4)])
  fix u
  assume "suffix u t" and "prefix q u"
  then have "sublist q t"
    by (meson prefix_imp_sublist suffix_imp_sublist sublist_order.order.trans)
  with assms(5) show "p \<noteq> [] \<and> prefix p u" by simp
qed

subsection \<open>The patterns and replacements of \<open>server.js\<close>\<close>

lemmas rule_defs = ltHost_def ltLocal_def wsHost_def wsLocal_def js_def

lemma ltHost_after_lt: "\<not> sublist ltHost (replaceAll ltHost ltLocal t)"
  by (rule replaceAll_removes) (simp_all add: rule_defs startsInside_def agree_def)

lemma wsHost_after_ws: "\<not> sublist wsHost (replaceAll wsHost wsLocal t)"
  by (rule replaceAll_removes) (simp_all add: rule_defs startsInside_def agree_def)

lemma ltHost_after_ws: "\<not> sublist ltHost t \<Longrightarrow> \<not> sublist ltHost (replaceAll wsHost wsLocal t)"
  by (rule replaceAll_keeps_absent) (simp_all add: rule_defs startsInside_def agree_def)

lemma lmtFieldPattern_split:
  "lmtFieldPattern = js [CHR 0x22, CHR ''l'', CHR ''m'', CHR ''t'', CHR ''F'', CHR ''i'',
      CHR ''s'', CHR ''h'', CHR ''n'', CHR ''e'', CHR ''t'', CHR ''F'', CHR ''e'', CHR ''e'',
      CHR ''d'', CHR ''s'', CHR ''U'', CHR ''r'', CHR ''l'', CHR 0x22, CHR '':'', CHR 0x22]
     @ ltHost @ js [CHR 0x22]"
  by (simp add: lmtFieldPattern_def rule_defs)

lemma cardsFieldPattern_split:
  "cardsFieldPattern = js [CHR 0x22, CHR ''c'', CHR ''a'', CHR ''r'', CHR ''d'', CHR ''s'',
      CHR ''F'', CHR ''i'', CHR ''s'', CHR ''h'', CHR ''n'', CHR ''e'', CHR ''t'', CHR ''F'',
      CHR ''e'', CHR ''e'', CHR ''d'', CHR ''s'', CHR ''U'', CHR ''r'', CHR ''l'', CHR 0x22,
      CHR '':'', CHR 0x22]
     @ wsHost @ js [CHR 0x22]"
  by (simp add: cardsFieldPattern_def rule_defs)

lemma ltHost_in_lmtFieldPattern: "sublist ltHost lmtFieldPattern"
  unfolding lmtFieldPattern_split by (rule sublist_appendI)

lemma wsHost_in_cardsFieldPattern: "sublist wsHost cardsFieldPattern"
  unfolding cardsFieldPattern_split by (rule sublist_appendI)

lemma hosts_absent_after_rewrite:
  "\<not> sublist ltHost (rewriteResponseText t)" "\<not> sublist wsHost (rewriteResponseText t)"
  unfolding rewriteResponseText_def
  by (rule ltHost_after_ws, rule ltHost_after_lt) (rule wsHost_after_ws)

lemma rewriteResponseText_fixpoint:
  assumes "\<not> sublist ltHost u" and "\<not> sublist wsHost u"
  shows "rewriteResponseText u = u"
proof -
  from assms(1) have "\<not> sublist lmtFieldPattern u"
    using ltHost_in_lmtFieldPattern sublist_order.order.trans by blast
  moreover from assms(2) have "\<not> sublist cardsFieldPattern u"
    using wsHost_in_cardsFieldPattern sublist_order.order.trans by blast
  ultimately show ?thesis
    using assms by (simp add: rewriteResponseText_def replaceAll_absent)
qed

subsection \<open>The four rules as one pass\<close>

lemma not_startsInside_Cons: "\<not> startsInside p (x # xs) \<Longrightarrow> \<not> startsInside p xs"
  unfolding startsInside_iff by (metis Suc_less_eq drop_Suc_Cons length_Cons)

lemma not_startsInside_prefix: "\<not> startsInside p (x # xs) \<Longrightarrow> \<not> prefix p ((x # xs) @ u)"
proof
  assume no: "\<not> startsInside p (x # xs)" and "prefix p ((x # xs) @ u)"
  then have "agree p (drop 0 (x # xs))"
    by (simp add: prefix_append_agree del: append_Cons)
  with no show False
    unfolding startsInside_iff by (metis length_greater_0_conv list.discI)
qed

lemma replaceAll_pass: "\<not> startsInside p w \<Longrightarrow> replaceAll p r (w @ u) = w @ replaceAll p r u"
proof (induction w)
  case Nil
  show ?case by simp
next
  case (Cons x xs)
  from Cons.prems have "\<not> prefix p (x # (xs @ u))"
    using not_startsInside_prefix [of p x xs u] by simp
  then have "replaceAll p r (x # (xs @ u)) = x # replaceAll p r (xs @ u)"
    by (intro replaceAll_copy) simp
  with Cons.IH [OF not_startsInside_Cons [OF Cons.prems]] show ?case
    by simp
qed

lemma replaceAll_hit: "p \<noteq> [] \<Longrightarrow> replaceAll p r (p @ u) = r @ replaceAll p r u"
proof -
  assume "p \<noteq> []"
  then obtain c cs where p: "p = c # cs" by (cases p) auto
  have "replaceAll p r (c # (cs @ u)) = r @ replaceAll p r (drop (length p) (c # (cs @ u)))"
    by (rule replaceAll_match) (simp_all add: p)
  then show ?thesis
    by (simp add: p)
qed

lemma replaceEither_first:
  "p \<noteq> [] \<Longrightarrow> replaceEither p r q s (p @ u) = r @ replaceEither p r q s u"
proof -
  assume "p \<noteq> []"
  then obtain c cs where p: "p = c # cs" by (cases p) auto
  have "replaceEither p r q s (c # (cs @ u)) =
      r @ replaceEither p r q s (drop (length p) (c # (cs @ u)))"
    by (simp only: replaceEither.simps) (simp add: p)
  then show ?thesis
    by (simp add: p)
qed

lemma replaceEither_second:
  assumes "q \<noteq> []" and "\<not> agree p q"
  shows "replaceEither p r q s (q @ u) = s @ replaceEither p r q s u"
proof -
  from assms(1) obtain c cs where q: "q = c # cs" by (cases q) auto
  from assms(2) have "\<not> prefix p (q @ u)"
    using prefix_append_agree by blast
  then have "replaceEither p r q s (c # (cs @ u)) =
      s @ replaceEither p r q s (drop (length q) (c # (cs @ u)))"
    by (simp only: replaceEither.simps) (simp add: q)
  then show ?thesis
    by (simp add: q)
qed

lemma replaceEither_copy:
  "\<not> prefix p (c # cs) \<Longrightarrow> \<not> prefix q (c # cs) \<Longrightarrow>
   replaceEither p r q s (c # cs) = c # replaceEither p r q s cs"
  by (simp only: replaceEither.simps) simp

lemma replaceEither_pass:
  "\<not> startsInside p w \<Longrightarrow> \<not> startsInside q w \<Longrightarrow>
   replaceEither p r q s (w @ u) = w @ replaceEither p r q s u"
proof (induction w)
  case Nil
  show ?case by simp
next
  case (Cons x xs)
  from Cons.prems have "\<not> prefix p (x # (xs @ u))" "\<not> prefix q (x # (xs @ u))"
    using not_startsInside_prefix [of p x xs u] not_startsInside_prefix [of q x xs u] by simp_all
  then have "replaceEither p r q s (x # (xs @ u)) = x # replaceEither p r q s (xs @ u)"
    by (rule replaceEither_copy)
  with Cons.IH [OF not_startsInside_Cons [OF Cons.prems(1)] not_startsInside_Cons [OF Cons.prems(2)]]
  show ?case by simp
qed

lemma prefix_Cons_replaceAll_source:
  assumes "r \<noteq> []" and "hd r \<notin> set (tl q)" and "prefix q (c # replaceAll p r cs)"
  shows "prefix q (c # cs)"
proof (cases q)
  case Nil
  then show ?thesis by simp
next
  case (Cons a q')
  with assms(3) have "a = c" and "prefix q' (replaceAll p r cs)"
    by auto
  moreover from Cons assms(2) have "hd r \<notin> set q'" by simp
  ultimately have "prefix q' cs"
    using prefix_replaceAll_source [OF assms(1)] by blast
  with Cons \<open>a = c\<close> show ?thesis by simp
qed

text \<open>Two passes, one pattern each, are the one pass for either pattern.\<close>

lemma replaceAll_twice_either:
  assumes "p \<noteq> []" and "q \<noteq> []" and "r \<noteq> []"
    and "\<not> startsInside q r" and "\<not> startsInside p q" and "hd r \<notin> set (tl q)"
  shows "replaceAll q s (replaceAll p r t) = replaceEither p r q s t"
proof (induction t rule: length_induct)
  case (1 t)
  show ?case
  proof (cases t)
    case Nil
    then show ?thesis by simp
  next
    case (Cons c cs)
    consider (first) "prefix p t" | (second) "\<not> prefix p t" "prefix q t"
      | (neither) "\<not> prefix p t" "\<not> prefix q t"
      by blast
    then show ?thesis
    proof cases
      case first
      then obtain u where t: "t = p @ u" by (auto simp: prefix_def)
      with assms(1) have "length u < length t" by simp
      with 1 have "replaceAll q s (replaceAll p r u) = replaceEither p r q s u" by blast
      then show ?thesis
        by (simp add: t replaceAll_hit [OF assms(1)] replaceAll_pass [OF assms(4)]
            replaceEither_first [OF assms(1)])
    next
      case second
      then obtain u where t: "t = q @ u" by (auto simp: prefix_def)
      with assms(2) have "length u < length t" by simp
      with 1 have ih: "replaceAll q s (replaceAll p r u) = replaceEither p r q s u" by blast
      from assms(2,5) have "\<not> agree p q"
        unfolding startsInside_iff by (metis drop0 length_greater_0_conv)
      with ih show ?thesis
        by (simp add: t replaceAll_pass [OF assms(5)] replaceAll_hit [OF assms(2)]
            replaceEither_second [OF assms(2)])
    next
      case neither
      from neither(1) Cons have one: "replaceAll p r t = c # replaceAll p r cs"
        by (simp add: replaceAll_copy)
      from neither(2) Cons have "\<not> prefix q (c # replaceAll p r cs)"
        using prefix_Cons_replaceAll_source [OF assms(3,6)] by blast
      then have two: "replaceAll q s (c # replaceAll p r cs) = c # replaceAll q s (replaceAll p r cs)"
        by (simp add: replaceAll_copy)
      from Cons 1 have "replaceAll q s (replaceAll p r cs) = replaceEither p r q s cs"
        by simp
      with one two neither Cons show ?thesis
        by (simp add: replaceEither_copy)
    qed
  qed
qed

text \<open>
  A rule for a pattern in a fixed context, \<open>a @ x @ z\<close> to \<open>a @ y @ z\<close>, adds nothing to
  the one pass when the pass replaces \<open>x\<close> by \<open>y\<close> and copies the context.
\<close>

lemma replaceEither_absorbs:
  assumes hit: "\<And>u. replaceEither p r q s (x @ u) = y @ replaceEither p r q s u"
    and pass: "\<not> startsInside p a" "\<not> startsInside q a" "\<not> startsInside p z" "\<not> startsInside q z"
      "\<not> startsInside p (a @ y @ z)" "\<not> startsInside q (a @ y @ z)"
    and fld: "\<not> startsInside (a @ x @ z) p" "\<not> startsInside (a @ x @ z) q"
    and src: "hd a \<notin> set (tl p)" "hd a \<notin> set (tl q)" "a \<noteq> []"
    and ne: "p \<noteq> []" "q \<noteq> []" "\<not> agree p q"
  shows "replaceEither p r q s (replaceAll (a @ x @ z) (a @ y @ z) t) = replaceEither p r q s t"
proof (induction t rule: length_induct)
  case (1 t)
  let ?E = "replaceEither p r q s"
  let ?F = "replaceAll (a @ x @ z) (a @ y @ z)"
  have fne: "a @ x @ z \<noteq> []" and rne: "a @ y @ z \<noteq> []" and hdr: "hd (a @ y @ z) = hd a"
    using src(3) by simp_all
  show ?case
  proof (cases t)
    case Nil
    then show ?thesis by simp
  next
    case (Cons c cs)
    consider (field) "prefix (a @ x @ z) t"
      | (first) "\<not> prefix (a @ x @ z) t" "prefix p t"
      | (second) "\<not> prefix (a @ x @ z) t" "\<not> prefix p t" "prefix q t"
      | (neither) "\<not> prefix (a @ x @ z) t" "\<not> prefix p t" "\<not> prefix q t"
      by blast
    then show ?thesis
    proof cases
      case field
      then obtain u where t: "t = (a @ x @ z) @ u" by (auto simp: prefix_def)
      with fne have "length u < length t" by simp
      with 1 have ih: "?E (?F u) = ?E u" by blast
      have "?E (?F t) = (a @ y @ z) @ ?E (?F u)"
        unfolding t replaceAll_hit [OF fne]
        by (rule replaceEither_pass [OF pass(5,6)])
      moreover have "?E t = a @ y @ z @ ?E u"
        unfolding t append_assoc replaceEither_pass [OF pass(1,2)] hit
          replaceEither_pass [OF pass(3,4)] ..
      ultimately show ?thesis
        using ih by simp
    next
      case first
      then obtain u where t: "t = p @ u" by (auto simp: prefix_def)
      with ne(1) have "length u < length t" by simp
      with 1 have "?E (?F u) = ?E u" by blast
      then show ?thesis
        by (simp add: t replaceAll_pass [OF fld(1)] replaceEither_first [OF ne(1)])
    next
      case second
      then obtain u where t: "t = q @ u" by (auto simp: prefix_def)
      with ne(2) have "length u < length t" by simp
      with 1 have "?E (?F u) = ?E u" by blast
      then show ?thesis
        by (simp add: t replaceAll_pass [OF fld(2)] replaceEither_second [OF ne(2,3)])
    next
      case neither
      from neither(1) Cons have one: "?F t = c # ?F cs"
        by (simp add: replaceAll_copy)
      from neither(2,3) Cons have "\<not> prefix p (c # ?F cs)" "\<not> prefix q (c # ?F cs)"
        using prefix_Cons_replaceAll_source [OF rne, of p c "a @ x @ z" cs]
          prefix_Cons_replaceAll_source [OF rne, of q c "a @ x @ z" cs] src(1,2) hdr
        by auto
      then have "?E (c # ?F cs) = c # ?E (?F cs)"
        by (rule replaceEither_copy)
      moreover from Cons 1 have "?E (?F cs) = ?E cs"
        by simp
      ultimately show ?thesis
        using one neither Cons by (simp add: replaceEither_copy)
    qed
  qed
qed

subsection \<open>The rules of \<open>server.js\<close> as one pass\<close>

lemma rewrite_one_pass:
  "rewriteResponseText t = replaceEither ltHost ltLocal wsHost wsLocal t"
proof -
  let ?E = "replaceEither ltHost ltLocal wsHost wsLocal"
  define A where "A = js [CHR 0x22, CHR ''l'', CHR ''m'', CHR ''t'', CHR ''F'', CHR ''i'',
      CHR ''s'', CHR ''h'', CHR ''n'', CHR ''e'', CHR ''t'', CHR ''F'', CHR ''e'', CHR ''e'',
      CHR ''d'', CHR ''s'', CHR ''U'', CHR ''r'', CHR ''l'', CHR 0x22, CHR '':'', CHR 0x22]"
  define B where "B = js [CHR 0x22, CHR ''c'', CHR ''a'', CHR ''r'', CHR ''d'', CHR ''s'',
      CHR ''F'', CHR ''i'', CHR ''s'', CHR ''h'', CHR ''n'', CHR ''e'', CHR ''t'', CHR ''F'',
      CHR ''e'', CHR ''e'', CHR ''d'', CHR ''s'', CHR ''U'', CHR ''r'', CHR ''l'', CHR 0x22,
      CHR '':'', CHR 0x22]"
  define Q where "Q = js [CHR 0x22]"
  have fields: "lmtFieldPattern = A @ ltHost @ Q" "lmtFieldLocal = A @ ltLocal @ Q"
    "cardsFieldPattern = B @ wsHost @ Q" "cardsFieldLocal = B @ wsLocal @ Q"
    by (simp_all add: A_def B_def Q_def lmtFieldPattern_def lmtFieldLocal_def
        cardsFieldPattern_def cardsFieldLocal_def rule_defs)
  have ne: "ltHost \<noteq> []" "wsHost \<noteq> []" "ltLocal \<noteq> []"
    by (simp_all add: rule_defs)
  have differ: "\<not> agree ltHost wsHost"
    by (simp add: agree_def rule_defs)
  have two: "replaceAll wsHost wsLocal (replaceAll ltHost ltLocal u) = ?E u" for u
    by (rule replaceAll_twice_either) (simp_all add: rule_defs startsInside_def agree_def)
  have lmt: "?E (replaceAll (A @ ltHost @ Q) (A @ ltLocal @ Q) u) = ?E u" for u
  proof (rule replaceEither_absorbs)
    show "?E (ltHost @ v) = ltLocal @ ?E v" for v
      by (rule replaceEither_first [OF ne(1)])
  qed (simp_all add: A_def Q_def rule_defs startsInside_def agree_def)
  have cards: "?E (replaceAll (B @ wsHost @ Q) (B @ wsLocal @ Q) u) = ?E u" for u
  proof (rule replaceEither_absorbs)
    show "?E (wsHost @ v) = wsLocal @ ?E v" for v
      by (rule replaceEither_second [OF ne(2) differ])
  qed (simp_all add: B_def Q_def rule_defs startsInside_def agree_def)
  show ?thesis
    unfolding rewriteResponseText_def fields two cards lmt ..
qed

section \<open>Properties of \<open>proxyRequest\<close>\<close>

subsection \<open>Header tables\<close>

lemma setHeader_accepted: "accepted (k, v) \<Longrightarrow> setHeader k v t = Inr (t(toLowerCase k \<mapsto> (k, v)))"
  by (simp add: accepted_def setHeader_def)

lemma setHeaders_accepted: "list_all accepted hs \<Longrightarrow> setHeaders hs t = Inr (storeAll hs t)"
proof (induction hs arbitrary: t)
  case Nil
  show ?case by (simp add: storeAll_def)
next
  case (Cons kv hs)
  obtain k v where kv: "kv = (k, v)" by (cases kv)
  with Cons.prems have "setHeader k v t = Inr (t(toLowerCase k \<mapsto> (k, v)))"
    by (simp add: setHeader_accepted)
  moreover from Cons have "setHeaders hs (t(toLowerCase k \<mapsto> (k, v))) = Inr (storeAll hs (t(toLowerCase k \<mapsto> (k, v))))"
    by simp
  ultimately show ?case
    using kv by (simp add: storeAll_def)
qed

lemma forwardHeaders_accepted: "list_all accepted hs \<Longrightarrow> forwardHeaders hs t = storeAll hs t"
proof (induction hs arbitrary: t)
  case Nil
  show ?case by (simp add: storeAll_def)
next
  case (Cons kv hs)
  obtain k v where kv: "kv = (k, v)" by (cases kv)
  with Cons.prems have "setHeader k v t = Inr (t(toLowerCase k \<mapsto> (k, v)))" and "v \<noteq> Undefined"
    by (simp_all add: setHeader_accepted) (simp add: accepted_def)
  moreover from Cons have "forwardHeaders hs (t(toLowerCase k \<mapsto> (k, v))) = storeAll hs (t(toLowerCase k \<mapsto> (k, v)))"
    by simp
  ultimately show ?case
    using kv by (simp add: storeAll_def)
qed

lemma storeAll_other: "k' \<notin> toLowerCase ` fst ` set hs \<Longrightarrow> storeAll hs t k' = t k'"
  by (induction hs arbitrary: t) (auto simp: storeAll_def)

lemma storeAll_member:
  "distinct (map (\<lambda>kv. toLowerCase (fst kv)) hs) \<Longrightarrow> kv \<in> set hs \<Longrightarrow>
   storeAll hs t (toLowerCase (fst kv)) = Some kv"
proof (induction hs arbitrary: t)
  case Nil
  then show ?case by simp
next
  case (Cons a hs)
  show ?case
  proof (cases "kv = a")
    case True
    from Cons.prems(1) have "toLowerCase (fst a) \<notin> toLowerCase ` fst ` set hs"
      by auto
    then have "storeAll hs (t(toLowerCase (fst a) \<mapsto> a)) (toLowerCase (fst a)) = Some a"
      by (simp add: storeAll_other)
    with True show ?thesis by (simp add: storeAll_def)
  next
    case False
    with Cons.prems have "kv \<in> set hs" and "distinct (map (\<lambda>kv. toLowerCase (fst kv)) hs)"
      by auto
    with Cons.IH have "storeAll hs (t(toLowerCase (fst a) \<mapsto> a)) (toLowerCase (fst kv)) = Some kv"
      by blast
    then show ?thesis by (simp add: storeAll_def)
  qed
qed

lemma incomingHeaders_accepted: "incomingHeaders hs \<Longrightarrow> list_all accepted hs"
  by (auto simp: incomingHeaders_def accepted_def list_all_iff)

lemma incomingHeaders_distinct:
  "incomingHeaders hs \<Longrightarrow> distinct (map (\<lambda>kv. toLowerCase (fst kv)) hs)"
proof -
  assume wf: "incomingHeaders hs"
  then have eq: "map (\<lambda>kv. toLowerCase (fst kv)) hs = map fst hs"
    by (auto simp: incomingHeaders_def list_all_iff)
  from wf have "distinct (map fst hs)"
    by (simp add: incomingHeaders_def)
  then show ?thesis
    unfolding eq .
qed

lemma incomingHeaders_getProp:
  assumes "incomingHeaders hs" and "getProp hs k \<noteq> Undefined"
  shows "\<not> checkInvalidHeaderChar (getProp hs k)"
proof -
  from assms(2) obtain v where v: "map_of hs k = Some v" "getProp hs k = v"
    by (auto simp: getProp_def split: option.splits)
  then have "(k, v) \<in> set hs" by (simp add: map_of_SomeD)
  with assms(1) v show ?thesis
    by (auto simp: incomingHeaders_def list_all_iff)
qed

lemma cors_accepted: "list_all accepted corsHeaders"
  by code_simp

lemma cors_set: "setHeaders corsHeaders Map.empty = Inr (storeAll corsHeaders Map.empty)"
  by (rule setHeaders_accepted [OF cors_accepted])

lemma cors_names:
  "toLowerCase ` fst ` set corsHeaders =
     {js ''access-control-allow-origin'', js ''access-control-allow-methods'',
      js ''access-control-allow-headers'', js ''x-frame-options'', js ''x-content-type-options'',
      js ''x-xss-protection'', js ''referrer-policy''}"
  by (simp add: corsHeaders_def toLowerCase_def lowerUnit_def js_def)


lemma digitUnit_header: "d < 10 \<Longrightarrow> isHeaderUnit (digitUnit d)"
proof -
  assume "d < 10"
  then have "d \<in> {0, 1, 2, 3, 4, 5, 6, 7, 8, 9}" by auto
  then show ?thesis
    by (auto simp: isHeaderUnit_def digitUnit_def)
qed

lemma numberToString_header: "list_all isHeaderUnit (numberToString n)"
proof (induction n rule: numberToString.induct)
  case (1 n)
  show ?case
  proof (cases "n < 10")
    case True
    then show ?thesis
      by (subst numberToString.simps) (simp add: digitUnit_header)
  next
    case False
    with 1 have "list_all isHeaderUnit (numberToString (n div 10))" by simp
    moreover have "isHeaderUnit (digitUnit (n mod 10))"
      by (rule digitUnit_header) simp
    ultimately show ?thesis
      using False by (subst numberToString.simps) simp
  qed
qed

lemma header_names:
  "toLowerCase (js ''Content-Type'') = js ''content-type''"
  "toLowerCase (js ''Cache-Control'') = js ''cache-control''"
  "toLowerCase (js ''Content-Length'') = js ''content-length''"
  "checkIsHttpToken (js ''Content-Type'')"
  "checkIsHttpToken (js ''Cache-Control'')"
  "checkIsHttpToken (js ''Content-Length'')"
  "\<not> checkInvalidHeaderChar (HStr (js ''application/javascript''))"
  by (simp_all add: toLowerCase_def lowerUnit_def js_def checkIsHttpToken_def isTokenUnit_def
      checkInvalidHeaderChar_def isHeaderUnit_def)

lemma header_names_differ:
  "js ''content-type'' \<noteq> js ''content-encoding''"
  "js ''cache-control'' \<noteq> js ''content-encoding''"
  "js ''content-length'' \<noteq> js ''content-encoding''"
  "js ''content-length'' \<noteq> js ''content-type''"
  "js ''content-length'' \<noteq> js ''cache-control''"
  "js ''content-type'' \<noteq> js ''cache-control''"
  by (simp_all add: js_def)

lemma content_encoding_not_cors: "js ''content-encoding'' \<notin> toLowerCase ` fst ` set corsHeaders"
  by (simp add: js_def cors_names)

lemma truthy_defined: "truthy v \<Longrightarrow> v \<noteq> Undefined"
  by (auto simp: truthy_def)

text \<open>What transform mode sends, when it sends.\<close>

lemma transformMode_sent:
  assumes "transformMode rt proxyRes t = Inr res"
  shows "resStatus res = statusCode proxyRes"
    and "resBody res = bufferFromUtf8 rt (rewriteResponseText (bufferToString rt
           (decompress rt (getProp (inHeaders proxyRes) (js ''content-encoding''))
              (concat (bodyChunks proxyRes)))))"
    and "resHeaders res (js ''content-encoding'') = t (js ''content-encoding'')"
    and "resHeaders res (js ''content-length'') =
           Some (js ''Content-Length'', HStr (numberToString (length (resBody res))))"
  using assms
  by (auto simp: transformMode_def Let_def setHeader_def header_names header_names_differ
      header_names_differ [symmetric] split: sum.splits if_splits)

lemma transformMode_sends:
  assumes "incomingHeaders (inHeaders proxyRes)"
  shows "\<exists>res. transformMode rt proxyRes t = Inr res"
proof -
  let ?hs = "inHeaders proxyRes"
  let ?ct = "getProp ?hs (js ''content-type'')"
  let ?cc = "getProp ?hs (js ''cache-control'')"
  have ct: "accepted (js ''Content-Type'', if truthy ?ct then ?ct else HStr (js ''application/javascript''))"
    using incomingHeaders_getProp [OF assms, of "js ''content-type''"]
    by (auto simp: accepted_def header_names dest: truthy_defined)
  have cc: "truthy ?cc \<Longrightarrow> accepted (js ''Cache-Control'', ?cc)"
    using incomingHeaders_getProp [OF assms, of "js ''cache-control''"]
    by (auto simp: accepted_def header_names dest: truthy_defined)
  have cl: "accepted (js ''Content-Length'', HStr (numberToString n))" for n
    by (simp add: accepted_def header_names checkInvalidHeaderChar_def numberToString_header)
  show ?thesis
    unfolding transformMode_def Let_def
    by (simp add: setHeader_accepted [OF ct] setHeader_accepted [OF cc] setHeader_accepted [OF cl])
qed

lemma cors_distinct: "distinct (map (\<lambda>kv. toLowerCase (fst kv)) corsHeaders)"
  by (simp add: corsHeaders_def toLowerCase_def lowerUnit_def js_def)

lemma encoding_names_differ:
  "js ''gzip'' \<noteq> js ''br''" "js ''gzip'' \<noteq> js ''deflate''" "js ''br'' \<noteq> js ''deflate''"
  by simp_all

lemma decompress_fallback: "decompressionFails rt ce bdata \<Longrightarrow> decompress rt ce bdata = bdata"
  unfolding decompressionFails_def decompress_def
  by (elim disjE conjE) (simp_all add: encoding_names_differ encoding_names_differ [symmetric])

section \<open>Properties of the service\<close>

subsection \<open>The Cache Store\<close>

lemma map_of_cacheSet:
  "map_of (cacheSet limit store k v ttlSeconds t) k =
     Some \<lparr>cached = v, inserted = t, ttl = ttlSeconds\<rparr>"
proof -
  let ?others = "filter (\<lambda>entry. fst entry \<noteq> k) store"
  let ?kept = "case limit of None \<Rightarrow> ?others | Some n \<Rightarrow> drop (Suc (length ?others) - n) ?others"
  have "k \<notin> fst ` set ?others"
    by auto
  moreover have "set ?kept \<subseteq> set ?others"
    by (cases limit) (auto dest: in_set_dropD)
  ultimately have "k \<notin> fst ` set ?kept"
    by blast
  then have "map_of ?kept k = None"
    by (simp add: map_of_eq_None_iff)
  then have "map_of (?kept @ [(k, \<lparr>cached = v, inserted = t, ttl = ttlSeconds\<rparr>)]) k
      = Some \<lparr>cached = v, inserted = t, ttl = ttlSeconds\<rparr>"
    by (simp add: map_add_def)
  then show ?thesis
    by (simp add: cacheSet_def Let_def)
qed

lemma cacheGet_after_set:
  "cacheGet (cacheSet limit store k v ttlSeconds t) k now =
     (if now - t > ttlSeconds then None else Some v)"
  by (simp add: cacheGet_def map_of_cacheSet)

subsection \<open>\<open>proxyWidget\<close> and \<open>proxyAsset\<close>, case by case\<close>

lemma proxyWidget_unknown_provider:
  "map_of (providers cfg) provider = None \<Longrightarrow>
   proxyWidget cfg now took reply provider widgetType queryParams rh svc =
     (Inl (newError (js ''Provider '' @ quoted provider @ js '' not found'')), svc)"
  by (simp add: proxyWidget_def)

lemma proxyWidget_unknown_widgetType:
  "map_of (providers cfg) provider = Some pc \<Longrightarrow> map_of (widgetTypes pc) widgetType = None \<Longrightarrow>
   proxyWidget cfg now took reply provider widgetType queryParams rh svc =
     (Inl (newError (js ''Widget type '' @ quoted widgetType @ js '' not found for provider ''
                     @ quoted provider)), svc)"
  by (simp add: proxyWidget_def)

lemma proxyWidget_hit:
  "map_of (providers cfg) provider = Some pc \<Longrightarrow> map_of (widgetTypes pc) widgetType = Some wc \<Longrightarrow>
   cacheGet (nodeCache svc) (widgetCacheKey provider widgetType queryParams) now = Some hit \<Longrightarrow>
   proxyWidget cfg now took reply provider widgetType queryParams rh svc = (Inr hit, svc)"
  by (simp add: proxyWidget_def Let_def)

lemma proxyWidget_failed:
  "map_of (providers cfg) provider = Some pc \<Longrightarrow> map_of (widgetTypes pc) widgetType = Some wc \<Longrightarrow>
   cacheGet (nodeCache svc) (widgetCacheKey provider widgetType queryParams) now = None \<Longrightarrow>
   httpClientGet reply = Inl e \<Longrightarrow>
   proxyWidget cfg now took reply provider widgetType queryParams rh svc =
     (Inl (newError (js ''Failed to fetch widget: '' @ message e)),
      svc\<lparr>sent := sent svc @ [widgetRequest pc wc queryParams rh]\<rparr>)"
  by (simp add: proxyWidget_def Let_def)

lemma proxyWidget_fetched:
  "map_of (providers cfg) provider = Some pc \<Longrightarrow> map_of (widgetTypes pc) widgetType = Some wc \<Longrightarrow>
   cacheGet (nodeCache svc) (widgetCacheKey provider widgetType queryParams) now = None \<Longrightarrow>
   httpClientGet reply = Inr response \<Longrightarrow>
   proxyWidget cfg now took reply provider widgetType queryParams rh svc =
     (Inr (widgetResult response),
      svc\<lparr>sent := sent svc @ [widgetRequest pc wc queryParams rh],
          nodeCache := cacheSet (maxKeys (cache cfg)) (nodeCache svc)
                         (widgetCacheKey provider widgetType queryParams) (widgetResult response)
                         (widgetCacheTtl cfg pc) (now + took)\<rparr>)"
  by (simp add: proxyWidget_def Let_def)

lemma proxyAsset_unknown_provider:
  "map_of (providers cfg) provider = None \<Longrightarrow>
   proxyAsset cfg now took reply provider assetPath rh svc =
     (Inl (newError (js ''Provider '' @ quoted provider @ js '' not found'')), svc)"
  by (simp add: proxyAsset_def)

lemma proxyAsset_hit:
  "map_of (providers cfg) provider = Some pc \<Longrightarrow>
   cacheGet (nodeCache svc) (assetCacheKey provider assetPath) now = Some hit \<Longrightarrow>
   proxyAsset cfg now took reply provider assetPath rh svc = (Inr hit, svc)"
  by (simp add: proxyAsset_def Let_def)

lemma proxyAsset_failed:
  "map_of (providers cfg) provider = Some pc \<Longrightarrow>
   cacheGet (nodeCache svc) (assetCacheKey provider assetPath) now = None \<Longrightarrow>
   httpClientGet reply = Inl e \<Longrightarrow>
   proxyAsset cfg now took reply provider assetPath rh svc =
     (Inl (newError (js ''Failed to fetch asset: '' @ message e)),
      svc\<lparr>sent := sent svc @ [assetRequest pc assetPath rh]\<rparr>)"
  by (simp add: proxyAsset_def Let_def)

lemma proxyAsset_fetched:
  "map_of (providers cfg) provider = Some pc \<Longrightarrow>
   cacheGet (nodeCache svc) (assetCacheKey provider assetPath) now = None \<Longrightarrow>
   httpClientGet reply = Inr response \<Longrightarrow>
   proxyAsset cfg now took reply provider assetPath rh svc =
     (Inr (assetResult assetPath response),
      svc\<lparr>sent := sent svc @ [assetRequest pc assetPath rh],
          nodeCache := cacheSet (maxKeys (cache cfg)) (nodeCache svc)
                         (assetCacheKey provider assetPath) (assetResult assetPath response)
                         (getAssetCacheTtl pc assetPath) (now + took)\<rparr>)"
  by (simp add: proxyAsset_def Let_def)

lemma httpClientGet_server_error: "500 \<le> st \<Longrightarrow> \<exists>e. httpClientGet (HttpReply st hs d) = Inl e"
  by (simp add: httpClientGet_def validateStatus_def)

text \<open>The asset path keeps to the same discipline as the widget path.\<close>

lemma asset_cached_within_ttl:
  assumes "map_of (providers cfg) provider = Some pc"
    and "cacheGet (nodeCache svc) (assetCacheKey provider assetPath) t1 = None"
    and "httpClientGet reply1 = Inr response"
    and "t2 \<le> t1 + d1 + getAssetCacheTtl pc assetPath"
    and "t1 + d1 + getAssetCacheTtl pc assetPath < t3"
    and "proxyAsset cfg t1 d1 reply1 provider assetPath rh1 svc = (r1, s1)"
    and "proxyAsset cfg t2 d2 reply2 provider assetPath rh2 s1 = (r2, s2)"
    and "proxyAsset cfg t3 d3 reply3 provider assetPath rh3 s2 = (r3, s3)"
  shows "length (sent s1) = length (sent svc) + 1 \<and> r2 = r1 \<and>
         length (sent s2) = length (sent svc) + 1 \<and>
         length (sent s3) = length (sent svc) + 2"
proof -
  let ?key = "assetCacheKey provider assetPath"
  from proxyAsset_fetched [OF assms(1-3)] assms(6)
  have r1: "r1 = Inr (assetResult assetPath response)"
    and s1: "s1 = svc\<lparr>sent := sent svc @ [assetRequest pc assetPath rh1],
                      nodeCache := cacheSet (maxKeys (cache cfg)) (nodeCache svc) ?key
                        (assetResult assetPath response) (getAssetCacheTtl pc assetPath) (t1 + d1)\<rparr>"
    by simp_all
  from assms(4) have "\<not> t2 - (t1 + d1) > getAssetCacheTtl pc assetPath"
    by arith
  with s1 have hit: "cacheGet (nodeCache s1) ?key t2 = Some (assetResult assetPath response)"
    by (simp add: cacheGet_after_set)
  from proxyAsset_hit [OF assms(1) hit] assms(7) have second: "r2 = r1" "s2 = s1"
    by (simp_all add: r1)
  from assms(5) have "t3 - (t1 + d1) > getAssetCacheTtl pc assetPath"
    by arith
  with s1 second have miss: "cacheGet (nodeCache s2) ?key t3 = None"
    by (simp add: cacheGet_after_set)
  have "length (sent s3) = length (sent s2) + 1"
  proof (cases "httpClientGet reply3")
    case (Inl e)
    from proxyAsset_failed [OF assms(1) miss Inl] assms(8) show ?thesis
      by auto
  next
    case (Inr response3)
    from proxyAsset_fetched [OF assms(1) miss Inr] assms(8) show ?thesis
      by auto
  qed
  with s1 second show ?thesis
    by simp
qed


subsection \<open>Quoting loses nothing\<close>

lemma unat_of_nat_small: "n < 65536 \<Longrightarrow> unat (of_nat n :: utf16) = n"
  by (simp add: unat_of_nat)

lemma unat_hexDigit: "d < 16 \<Longrightarrow> unat (hexDigit d) = (if d < 10 then 48 + d else 87 + d)"
proof -
  assume d: "d < 16"
  then have "unat (of_nat (48 + d) :: utf16) = 48 + d" "unat (of_nat (87 + d) :: utf16) = 87 + d"
    by (intro unat_of_nat_small; linarith)+
  then show ?thesis
    by (simp only: hexDigit_def if_distrib [of unat] cong: if_cong)
qed

lemma hexValue_hexDigit: "d < 16 \<Longrightarrow> hexValue (hexDigit d) = d"
  by (simp add: hexValue_def Let_def unat_hexDigit)

lemma unquoteBody_plain: "b \<noteq> 0x5C \<Longrightarrow> unquoteBody (b # rest) = b # unquoteBody rest"
  by (cases rest) simp_all

lemma unquoteBody_escape:
  "e \<noteq> 0x75 \<Longrightarrow> unquoteBody (0x5C # e # rest) = unescapeUnit e # unquoteBody rest"
  by simp

lemma unquoteBody_unicode:
  "unquoteBody (0x5C # 0x75 # h1 # h2 # h3 # h4 # r) =
     of_nat (4096 * hexValue h1 + 256 * hexValue h2 + 16 * hexValue h3 + hexValue h4) # unquoteBody r"
  by simp

declare unquoteBody.simps [simp del]

lemma unquoteBody_unicodeEscape: "unquoteBody (unicodeEscape c @ rest) = c # unquoteBody rest"
proof -
  let ?n = "unat c"
  have "?n < 2 ^ LENGTH(16)"
    by (rule unsigned_less)
  then have n: "?n < 65536" by simp
  define x1 x2 x3 where "x1 = ?n div 16" and "x2 = ?n div 256" and "x3 = ?n div 4096"
  have "x2 = x1 div 16" "x3 = x2 div 16"
    by (simp_all add: x1_def x2_def x3_def div_mult2_eq [symmetric])
  then have "16 * x1 + ?n mod 16 = ?n" "16 * x2 + x1 mod 16 = x1" "16 * x3 + x2 mod 16 = x2"
    by (simp_all add: x1_def)
  then have "4096 * x3 + 256 * (x2 mod 16) + 16 * (x1 mod 16) + ?n mod 16 = ?n"
    by linarith
  then have sum: "4096 * (?n div 4096) + 256 * (?n div 256 mod 16) + 16 * (?n div 16 mod 16) + ?n mod 16 = ?n"
    by (simp only: x1_def x2_def x3_def)
  from n have small: "?n div 4096 < 16"
    by (intro less_mult_imp_div_less) simp
  have digits: "hexValue (hexDigit (?n div 4096)) = ?n div 4096"
    "hexValue (hexDigit (?n div 256 mod 16)) = ?n div 256 mod 16"
    "hexValue (hexDigit (?n div 16 mod 16)) = ?n div 16 mod 16"
    "hexValue (hexDigit (?n mod 16)) = ?n mod 16"
    using small by (simp_all add: hexValue_hexDigit)
  have "unquoteBody (unicodeEscape c @ rest) =
      of_nat (4096 * (?n div 4096) + 256 * (?n div 256 mod 16) + 16 * (?n div 16 mod 16) + ?n mod 16)
        # unquoteBody rest"
    by (simp only: unicodeEscape_def Let_def append_Cons append_Nil unquoteBody_unicode digits)
  also have "\<dots> = c # unquoteBody rest"
    by (simp only: sum) simp
  finally show ?thesis .
qed

lemma unquoteBody_quoteUnit: "unquoteBody (quoteUnit c @ rest) = c # unquoteBody rest"
  unfolding quoteUnit_def
  by (simp add: unquoteBody_escape unquoteBody_unicodeEscape unquoteBody_plain unescapeUnit_def)

lemma surrogate_plain: "isLeadingSurrogate c \<or> isTrailingSurrogate c \<Longrightarrow> c \<noteq> 0x5C"
  by (auto simp: isLeadingSurrogate_def isTrailingSurrogate_def)

lemma unquoteBody_quoteBody: "unquoteBody (quoteBody s @ rest) = s @ unquoteBody rest"
proof (induction s rule: quoteBody.induct)
  case 1
  show ?case by simp
next
  case (2 c)
  show ?case by (simp add: unquoteBody_quoteUnit)
next
  case (3 c d ds)
  show ?case
  proof (cases "isLeadingSurrogate c \<and> isTrailingSurrogate d")
    case True
    then have plain: "c \<noteq> 0x5C" "d \<noteq> 0x5C"
      using surrogate_plain by blast+
    from True have "quoteBody (c # d # ds) @ rest = c # d # (quoteBody ds @ rest)"
      by (simp only: quoteBody.simps if_True append_Cons simp_thms)
    then have "unquoteBody (quoteBody (c # d # ds) @ rest) = c # d # unquoteBody (quoteBody ds @ rest)"
      by (simp only: unquoteBody_plain [OF plain(1)] unquoteBody_plain [OF plain(2)])
    with "3.IH"(1) [OF True] show ?thesis
      by simp
  next
    case False
    then have "quoteBody (c # d # ds) @ rest = quoteUnit c @ (quoteBody (d # ds) @ rest)"
      by (simp only: quoteBody.simps if_False append_assoc)
    then have "unquoteBody (quoteBody (c # d # ds) @ rest) = c # unquoteBody (quoteBody (d # ds) @ rest)"
      by (simp only: unquoteBody_quoteUnit)
    with "3.IH"(2) [OF False] show ?thesis
      by simp
  qed
qed

lemma quoteJSONString_inject: "quoteJSONString a = quoteJSONString b \<longleftrightarrow> a = b"
proof
  assume "quoteJSONString a = quoteJSONString b"
  then have "quoteBody a @ [0x22] = quoteBody b @ [0x22]"
    by (simp add: quoteJSONString_def)
  then have "unquoteBody (quoteBody a @ [0x22]) = unquoteBody (quoteBody b @ [0x22])"
    by (simp only:)
  then show "a = b"
    by (simp only: unquoteBody_quoteBody append_same_eq)
qed simp

section \<open>The claims about the minimal server\<close>

subsection \<open>\<open>proxyRequest\<close>\<close>

text \<open>
  C2. In transform mode the response that is sent has no \<open>content-encoding\<close> header, and
  its \<open>content-length\<close> header is the decimal byte length of the body, which is the UTF-8
  encoding of the rewritten text. For every upstream answer with a header object as the
  parser delivers it, the response is sent.
\<close>

theorem transform_mode_headers:
  assumes "incomingHeaders (inHeaders proxyRes)"
  shows "\<exists>res. proxyRequest env rt True (Responds proxyRes) = Inr res \<and>
           resBody res = bufferFromUtf8 rt (rewriteResponseText (bufferToString rt
             (decompress rt (getProp (inHeaders proxyRes) (js ''content-encoding''))
                (concat (bodyChunks proxyRes))))) \<and>
           resHeaders res (js ''content-encoding'') = None \<and>
           resHeaders res (js ''content-length'') =
             Some (js ''Content-Length'', HStr (numberToString (length (resBody res))))"
proof -
  let ?t = "storeAll corsHeaders Map.empty"
  from transformMode_sends [OF assms] obtain res where res: "transformMode rt proxyRes ?t = Inr res"
    by blast
  have "?t (js ''content-encoding'') = None"
    by (simp add: storeAll_other content_encoding_not_cors)
  with transformMode_sent [OF res] res show ?thesis
    by (simp add: proxyRequest_def cors_set)
qed

theorem transform_mode_headers_witness:
  "incomingHeaders (inHeaders sampleAnswer) \<and>
   (\<exists>res. proxyRequest sampleEnv sampleRuntime True (Responds sampleAnswer) = Inr res \<and>
      resBody res = bufferFromUtf8 sampleRuntime (rewriteResponseText (bufferToString sampleRuntime
        (decompress sampleRuntime (getProp (inHeaders sampleAnswer) (js ''content-encoding''))
           (concat (bodyChunks sampleAnswer))))) \<and>
      resHeaders res (js ''content-encoding'') = None \<and>
      resHeaders res (js ''content-length'') =
        Some (js ''Content-Length'', HStr (numberToString (length (resBody res)))))"
proof -
  have wf: "incomingHeaders (inHeaders sampleAnswer)"
    by code_simp
  from wf transform_mode_headers [OF wf, of sampleEnv sampleRuntime] show ?thesis
    by blast
qed

text \<open>
  C3. In stream mode the body sent is the upstream body, byte for byte, the status is the
  upstream status, and every header of the upstream answer is in the response with the
  upstream's value, also where the fixed CORS set has a header of that name; the fixed
  headers stay where the upstream has none of their name.
\<close>

theorem stream_mode_forwards:
  assumes "incomingHeaders (inHeaders proxyRes)"
  shows "\<exists>res. proxyRequest env rt False (Responds proxyRes) = Inr res \<and>
           resStatus res = statusCode proxyRes \<and>
           resBody res = concat (bodyChunks proxyRes) \<and>
           (\<forall>kv \<in> set (inHeaders proxyRes). resHeaders res (fst kv) = Some kv) \<and>
           (\<forall>kv \<in> set corsHeaders. toLowerCase (fst kv) \<notin> fst ` set (inHeaders proxyRes) \<longrightarrow>
              resHeaders res (toLowerCase (fst kv)) = Some kv)"
proof -
  let ?hs = "inHeaders proxyRes"
  let ?t = "storeAll corsHeaders Map.empty"
  have lower: "toLowerCase (fst kv) = fst kv" if "kv \<in> set ?hs" for kv
    using assms that by (auto simp: incomingHeaders_def list_all_iff)
  have fwd: "forwardHeaders ?hs ?t = storeAll ?hs ?t"
    by (rule forwardHeaders_accepted [OF incomingHeaders_accepted [OF assms]])
  have up: "storeAll ?hs ?t (fst kv) = Some kv" if "kv \<in> set ?hs" for kv
    using storeAll_member [OF incomingHeaders_distinct [OF assms] that, of ?t] lower [OF that]
    by simp
  have fixed: "storeAll ?hs ?t (toLowerCase (fst kv)) = Some kv"
    if "kv \<in> set corsHeaders" and "toLowerCase (fst kv) \<notin> fst ` set ?hs" for kv
  proof -
    have "toLowerCase ` fst ` set ?hs = fst ` set ?hs"
      using lower by force
    with that(2) have "storeAll ?hs ?t (toLowerCase (fst kv)) = ?t (toLowerCase (fst kv))"
      by (simp add: storeAll_other)
    with storeAll_member [OF cors_distinct that(1)] show ?thesis
      by simp
  qed
  show ?thesis
    using up fixed by (simp add: proxyRequest_def cors_set streamMode_def fwd)
qed

theorem stream_mode_forwards_witness:
  "incomingHeaders (inHeaders sampleAnswer) \<and>
   (\<exists>res. proxyRequest sampleEnv sampleRuntime False (Responds sampleAnswer) = Inr res \<and>
      resStatus res = 200 \<and>
      resBody res = [0x68, 0x69] \<and>
      resHeaders res (js ''content-encoding'') = Some (js ''content-encoding'', HStr (js ''gzip'')) \<and>
      resHeaders res (js ''x-frame-options'') = Some (js ''x-frame-options'', HStr (js ''DENY'')))"
proof -
  have wf: "incomingHeaders (inHeaders sampleAnswer)"
    by code_simp
  from stream_mode_forwards [OF wf, of sampleEnv sampleRuntime] obtain res where
    res: "proxyRequest sampleEnv sampleRuntime False (Responds sampleAnswer) = Inr res"
      "resStatus res = statusCode sampleAnswer"
      "resBody res = concat (bodyChunks sampleAnswer)"
      "\<forall>kv \<in> set (inHeaders sampleAnswer). resHeaders res (fst kv) = Some kv"
    by blast
  from res(4) have
    "resHeaders res (js ''content-encoding'') = Some (js ''content-encoding'', HStr (js ''gzip''))"
    "resHeaders res (js ''x-frame-options'') = Some (js ''x-frame-options'', HStr (js ''DENY''))"
    by (simp_all add: sampleAnswer_def)
  with wf res(1-3) show ?thesis
    by (simp add: sampleAnswer_def)
qed

text \<open>
  C7. In transform mode, when the body is labelled gzip, Brotli or deflate and the
  decompressor throws, the request does not fail: the response carries the upstream
  status and the rewritten text of the raw bytes.
\<close>

theorem decompression_failure_falls_back:
  assumes "incomingHeaders (inHeaders proxyRes)"
    and "decompressionFails rt (getProp (inHeaders proxyRes) (js ''content-encoding''))
           (concat (bodyChunks proxyRes))"
  shows "\<exists>res. proxyRequest env rt True (Responds proxyRes) = Inr res \<and>
           resStatus res = statusCode proxyRes \<and>
           resBody res = bufferFromUtf8 rt (rewriteResponseText (bufferToString rt
             (concat (bodyChunks proxyRes))))"
proof -
  let ?t = "storeAll corsHeaders Map.empty"
  from transformMode_sends [OF assms(1)] obtain res where res: "transformMode rt proxyRes ?t = Inr res"
    by blast
  from transformMode_sent(1,2) [OF res] decompress_fallback [OF assms(2)] res show ?thesis
    by (simp add: proxyRequest_def cors_set)
qed

lemma sample_rewrite: "rewriteResponseText [0x68, 0x69] = [0x68, 0x69]"
  by (simp add: rewriteResponseText_def rule_defs lmtFieldPattern_def cardsFieldPattern_def)

theorem decompression_failure_falls_back_witness:
  "incomingHeaders (inHeaders sampleAnswer) \<and>
   decompressionFails sampleRuntime (getProp (inHeaders sampleAnswer) (js ''content-encoding''))
     (concat (bodyChunks sampleAnswer)) \<and>
   (\<exists>res. proxyRequest sampleEnv sampleRuntime True (Responds sampleAnswer) = Inr res \<and>
      resStatus res = 200 \<and> resBody res = [0x68, 0x69])"
proof -
  have wf: "incomingHeaders (inHeaders sampleAnswer)"
    by code_simp
  have fails: "decompressionFails sampleRuntime
      (getProp (inHeaders sampleAnswer) (js ''content-encoding'')) (concat (bodyChunks sampleAnswer))"
    by (simp add: decompressionFails_def sampleRuntime_def sampleAnswer_def getProp_def js_def)
  from decompression_failure_falls_back [OF wf fails, of sampleEnv] wf fails show ?thesis
    by (simp add: sampleAnswer_def sampleRuntime_def sample_rewrite)
qed

text \<open>
  C4. Rewriting is idempotent: the rewritten text has no occurrence of either feed host
  left, so a second pass of the four rules changes nothing.
\<close>

theorem rewrite_idempotent:
  "rewriteResponseText (rewriteResponseText t) = rewriteResponseText t"
  by (rule rewriteResponseText_fixpoint) (rule hosts_absent_after_rewrite)+

text \<open>
  C10. Whatever the environment (the listening port among it), the rewrite of transform
  mode is the one pass that replaces each occurrence of
  \<open>https://lt-fn.sir-sportradar.com\<close> by \<open>http://localhost:3001/api/lt-fn\<close> and each
  occurrence of \<open>https://ws-fn.sir-sportradar.com\<close> by \<open>http://localhost:3001/api/ws-fn\<close>
  and copies the rest; the response of transform mode does not depend on the environment.
\<close>

theorem rewrite_replaces_hosts_by_fixed_urls:
  "rewriteResponseText t =
     replaceEither (js ''https://lt-fn.sir-sportradar.com'') (js ''http://localhost:3001/api/lt-fn'')
       (js ''https://ws-fn.sir-sportradar.com'') (js ''http://localhost:3001/api/ws-fn'') t \<and>
   proxyRequest env rt True up = proxyRequest env' rt True up"
  using rewrite_one_pass [of t]
  by (simp add: ltHost_def ltLocal_def wsHost_def wsLocal_def proxyRequest_def)

lemma port_8001_still_3001:
  "PORT sampleEnv = js ''8001'' \<and>
   rewriteResponseText (js ''https://lt-fn.sir-sportradar.com/feed'') = js ''http://localhost:3001/api/lt-fn/feed''"
proof -
  have "replaceEither ltHost ltLocal wsHost wsLocal (ltHost @ js ''/feed'')
      = ltLocal @ replaceEither ltHost ltLocal wsHost wsLocal (js ''/feed'')"
    by (rule replaceEither_first) (simp add: rule_defs)
  moreover have "replaceEither ltHost ltLocal wsHost wsLocal (js ''/feed'') = js ''/feed''"
    by (simp add: rule_defs)
  moreover have "PORT sampleEnv = js ''8001''"
    by (simp add: PORT_def orDefault_def sampleEnv_def js_def)
  ultimately show ?thesis
    by (simp add: rewrite_one_pass ltHost_def ltLocal_def js_append)
qed

subsection \<open>The request handler\<close>

lemma asset_prefix_excludes:
  assumes "prefix (js ''/proxy/sportradar/'') pathname"
  shows "pathname \<noteq> js ''/health''" "pathname \<noteq> js ''/''" "pathname \<noteq> js ''/demo''"
    "pathname \<noteq> js ''/loader/theme.css''" "pathname \<noteq> js ''/loader/preview.html''"
    "pathname \<noteq> js ''/loader/preview''" "pathname \<noteq> js ''/api''"
    "pathname \<noteq> js ''/'' @ sportradarWidgetId @ js ''/licensing''"
    "\<not> prefix (js ''/translations/'') pathname" "\<not> prefix (js ''/api/ws-fn/'') pathname"
    "\<not> prefix (js ''/api/lt-fn/'') pathname"
proof -
  have no: "pathname \<noteq> js b" if "\<not> prefix ''/proxy/sportradar/'' b" for b
    using assms that by auto
  show "pathname \<noteq> js ''/health''" "pathname \<noteq> js ''/''" "pathname \<noteq> js ''/demo''"
    "pathname \<noteq> js ''/loader/theme.css''" "pathname \<noteq> js ''/loader/preview.html''"
    "pathname \<noteq> js ''/loader/preview''" "pathname \<noteq> js ''/api''"
    by (rule no, simp)+
  show "pathname \<noteq> js ''/'' @ sportradarWidgetId @ js ''/licensing''"
    unfolding sportradarWidgetId_def js_append by (rule no) simp
  show "\<not> prefix (js ''/translations/'') pathname" "\<not> prefix (js ''/api/ws-fn/'') pathname"
    "\<not> prefix (js ''/api/lt-fn/'') pathname"
    by (rule prefix_js_exclusive [OF assms], simp, simp)+
qed

lemma asset_branch_condition:
  assumes "method \<noteq> js ''OPTIONS''" and "prefix (js ''/proxy/sportradar/'') pathname"
    and "\<not> prefix (js ''/proxy/sportradar/match.'') pathname"
  shows "requestHandler fs method pathname queryString = ReferenceError (js ''SPORTRADAR_BASE'')"
  using assms by (simp add: requestHandler_def asset_prefix_excludes)

text \<open>
  C9. The branch that reads \<open>SPORTRADAR_BASE\<close> is reached: the handler takes it for the
  asset path that its own \<open>/api\<close> answer advertises.
\<close>

theorem asset_branch_reached:
  "requestHandler fs (js ''GET'') (js ''/proxy/sportradar/assets/js/chunk.123.js'') queryString
     = ReferenceError (js ''SPORTRADAR_BASE'')"
proof -
  have "prefix (js ''/proxy/sportradar/'') (js ''/proxy/sportradar/assets/js/chunk.123.js'')"
    by simp
  moreover have "\<not> prefix (js ''/proxy/sportradar/match.'') (js ''/proxy/sportradar/assets/js/chunk.123.js'')"
    and "js ''GET'' \<noteq> js ''OPTIONS''"
    by simp_all
  ultimately show ?thesis
    by (simp add: requestHandler_def asset_prefix_excludes del: prefix_js js_eq_iff)
qed
section \<open>The claims about the service\<close>

lemma default_sportradar:
  "map_of (providers getDefaultConfig) (js ''sportradar'') =
     Some (snd (hd (providers getDefaultConfig)))"
  "map_of (widgetTypes (snd (hd (providers getDefaultConfig)))) (js ''match.lmtPlus'') =
     Some \<lparr>path = js ''/{widgetId}/widgetloader''\<rparr>"
  "widgetCacheTtl getDefaultConfig (snd (hd (providers getDefaultConfig))) = 300"
  "map_of (providers getDefaultConfig) (js ''acme'') = None"
  "map_of (widgetTypes (snd (hd (providers getDefaultConfig)))) (js ''match.scoreboard'') = None"
  by (simp_all add: getDefaultConfig_def widgetCacheTtl_def orElse_def)

lemma cacheGet_empty: "cacheGet [] k now = None"
  by (simp add: cacheGet_def)

lemma httpClientGet_down: "httpClientGet (NetworkError m) = Inl (newError m)"
  by (simp add: httpClientGet_def)

lemma httpClientGet_sampleScript:
  "httpClientGet sampleScript =
     Inr \<lparr>responseStatus = 200,
          responseHeaders = [(js ''content-type'', HStr (js ''application/javascript''))],
          responseData = Text (js ''SIR()'')\<rparr>"
  by (simp add: httpClientGet_def sampleScript_def validateStatus_def)

subsection \<open>Requests for what is not configured\<close>

lemma widgetRoute_unknown_provider:
  "map_of (providers cfg) provider = None \<Longrightarrow>
   widgetRoute cfg now took reply provider widgetType queryParams rh svc =
     (\<lparr>replyStatus = 500, replyHeaders = [], replyType = None,
       replyBody = Json (JObject
         [(js ''error'', JString (js ''Proxy Error'')),
          (js ''message'', JString (js ''Provider '' @ quoted provider @ js '' not found'')),
          (js ''provider'', JString provider),
          (js ''widgetType'', JString widgetType)])\<rparr>, svc)"
  by (simp add: widgetRoute_def proxyWidget_unknown_provider sendError_def newError_def orElse_def)

lemma widgetRoute_unknown_widgetType:
  "map_of (providers cfg) provider = Some pc \<Longrightarrow> map_of (widgetTypes pc) widgetType = None \<Longrightarrow>
   widgetRoute cfg now took reply provider widgetType queryParams rh svc =
     (\<lparr>replyStatus = 500, replyHeaders = [], replyType = None,
       replyBody = Json (JObject
         [(js ''error'', JString (js ''Proxy Error'')),
          (js ''message'', JString (js ''Widget type '' @ quoted widgetType
                                     @ js '' not found for provider '' @ quoted provider)),
          (js ''provider'', JString provider),
          (js ''widgetType'', JString widgetType)])\<rparr>, svc)"
  by (simp add: widgetRoute_def proxyWidget_unknown_widgetType sendError_def newError_def orElse_def)

lemma assetRoute_unknown_provider:
  "map_of (providers cfg) provider = None \<Longrightarrow>
   assetRoute cfg now took reply provider assetPath rh svc =
     (\<lparr>replyStatus = 500, replyHeaders = [], replyType = None,
       replyBody = Json (JObject
         [(js ''error'', JString (js ''Asset Proxy Error'')),
          (js ''message'', JString (js ''Provider '' @ quoted provider @ js '' not found'')),
          (js ''provider'', JString provider),
          (js ''assetPath'', JString assetPath)])\<rparr>, svc)"
  by (simp add: assetRoute_def proxyAsset_unknown_provider sendError_def newError_def orElse_def)

text \<open>The provider info endpoint answers the same unknown provider with 404 and the list.\<close>

lemma providerInfoRoute_unknown_provider:
  "providerInfoRoute getDefaultConfig (js ''acme'') =
     \<lparr>replyStatus = 404, replyHeaders = [], replyType = None,
      replyBody = Json (JObject
        [(js ''error'', JString (js ''Provider Not Found'')),
         (js ''message'', JString (js ''Provider '' @ quoted (js ''acme'') @ js '' is not configured'')),
         (js ''availableProviders'', JArray [JString (js ''sportradar'')])])\<rparr>"
  by (simp add: providerInfoRoute_def default_sportradar) (simp add: getDefaultConfig_def)

text \<open>
  C1. A widget request for a provider that is not configured is answered with status 500
  and a body of four strings (\<open>error\<close>, \<open>message\<close>, \<open>provider\<close>, \<open>widgetType\<close>); the
  service is left as it was, so nothing is fetched. The claim's 404 and its list of
  valid providers are not what the handler sends.
\<close>

theorem unknown_provider_answer:
  "widgetRoute getDefaultConfig now took reply (js ''acme'') (js ''match.lmtPlus'') queryParams rh svc =
     (\<lparr>replyStatus = 500, replyHeaders = [], replyType = None,
       replyBody = Json (JObject
         [(js ''error'', JString (js ''Proxy Error'')),
          (js ''message'', JString (js ''Provider '' @ quoted (js ''acme'') @ js '' not found'')),
          (js ''provider'', JString (js ''acme'')),
          (js ''widgetType'', JString (js ''match.lmtPlus''))])\<rparr>, svc)"
  by (rule widgetRoute_unknown_provider) (rule default_sportradar)

subsection \<open>The cache and the upstream\<close>

text \<open>
  C8. When the upstream fetch fails (the request fails, or the answer has a status of 500
  or more), \<open>proxyWidget\<close> and \<open>proxyAsset\<close> leave the cache as it was, and a request
  that the cache does not serve returns an error.
\<close>

theorem failed_fetch_leaves_cache:
  assumes "httpClientGet reply = Inl e"
  shows "nodeCache (snd (proxyWidget cfg now took reply provider widgetType queryParams rh svc))
           = nodeCache svc \<and>
         nodeCache (snd (proxyAsset cfg now took reply provider assetPath rh svc)) = nodeCache svc \<and>
         (cacheGet (nodeCache svc) (widgetCacheKey provider widgetType queryParams) now = None \<longrightarrow>
            (\<exists>err. fst (proxyWidget cfg now took reply provider widgetType queryParams rh svc) = Inl err)) \<and>
         (cacheGet (nodeCache svc) (assetCacheKey provider assetPath) now = None \<longrightarrow>
            (\<exists>err. fst (proxyAsset cfg now took reply provider assetPath rh svc) = Inl err))"
  using assms
  by (auto simp: proxyWidget_def proxyAsset_def Let_def split: option.splits)

theorem failed_fetch_leaves_cache_witness:
  "httpClientGet (NetworkError (js ''ECONNREFUSED'')) = Inl (newError (js ''ECONNREFUSED'')) \<and>
   cacheGet (nodeCache newService) (widgetCacheKey (js ''sportradar'') (js ''match.lmtPlus'') []) 0 = None \<and>
   nodeCache (snd (proxyWidget getDefaultConfig 0 1 (NetworkError (js ''ECONNREFUSED''))
     (js ''sportradar'') (js ''match.lmtPlus'') [] noRequestHeaders newService)) = [] \<and>
   (\<exists>err. fst (proxyWidget getDefaultConfig 0 1 (NetworkError (js ''ECONNREFUSED''))
     (js ''sportradar'') (js ''match.lmtPlus'') [] noRequestHeaders newService) = Inl err)"
proof -
  have down: "httpClientGet (NetworkError (js ''ECONNREFUSED'')) = Inl (newError (js ''ECONNREFUSED''))"
    by (rule httpClientGet_down)
  have miss: "cacheGet (nodeCache newService)
      (widgetCacheKey (js ''sportradar'') (js ''match.lmtPlus'') []) 0 = None"
    by (simp add: newService_def cacheGet_empty)
  from failed_fetch_leaves_cache [OF down, of getDefaultConfig 0 1 "js ''sportradar''"
      "js ''match.lmtPlus''" "[]" noRequestHeaders newService] down miss
  show ?thesis
    by (simp add: newService_def)
qed

text \<open>
  C5, as the code has it. A key without a live entry, and a first request whose upstream
  fetch succeeds: the request writes the entry of the key when the fetch is done, at
  \<open>t1 + d1\<close>, with the TTL of scripts. A second request for the same provider, widget type
  and query parameters before that entry expires is served from the cache, so the two
  requests make exactly one upstream fetch; a third request after the entry has expired
  makes the second fetch.
\<close>

theorem widget_cached_within_ttl:
  assumes "map_of (providers cfg) provider = Some pc"
    and "map_of (widgetTypes pc) widgetType = Some wc"
    and "cacheGet (nodeCache svc) (widgetCacheKey provider widgetType queryParams) t1 = None"
    and "httpClientGet reply1 = Inr response"
    and "t2 \<le> t1 + d1 + widgetCacheTtl cfg pc"
    and "t1 + d1 + widgetCacheTtl cfg pc < t3"
    and "proxyWidget cfg t1 d1 reply1 provider widgetType queryParams rh1 svc = (r1, s1)"
    and "proxyWidget cfg t2 d2 reply2 provider widgetType queryParams rh2 s1 = (r2, s2)"
    and "proxyWidget cfg t3 d3 reply3 provider widgetType queryParams rh3 s2 = (r3, s3)"
  shows "map_of (nodeCache s1) (widgetCacheKey provider widgetType queryParams) =
           Some \<lparr>cached = widgetResult response, inserted = t1 + d1,
                 ttl = widgetCacheTtl cfg pc\<rparr> \<and>
         r1 = Inr (widgetResult response) \<and>
         length (sent s1) = length (sent svc) + 1 \<and> r2 = r1 \<and>
         length (sent s2) = length (sent svc) + 1 \<and>
         length (sent s3) = length (sent svc) + 2"
proof -
  let ?key = "widgetCacheKey provider widgetType queryParams"
  from proxyWidget_fetched [OF assms(1-4)] assms(7)
  have r1: "r1 = Inr (widgetResult response)"
    and s1: "s1 = svc\<lparr>sent := sent svc @ [widgetRequest pc wc queryParams rh1],
                      nodeCache := cacheSet (maxKeys (cache cfg)) (nodeCache svc) ?key
                        (widgetResult response) (widgetCacheTtl cfg pc) (t1 + d1)\<rparr>"
    by simp_all
  from s1 have entry: "map_of (nodeCache s1) ?key =
      Some \<lparr>cached = widgetResult response, inserted = t1 + d1, ttl = widgetCacheTtl cfg pc\<rparr>"
    by (simp add: map_of_cacheSet)
  from assms(5) have "\<not> t2 - (t1 + d1) > widgetCacheTtl cfg pc"
    by arith
  with s1 have hit: "cacheGet (nodeCache s1) ?key t2 = Some (widgetResult response)"
    by (simp add: cacheGet_after_set)
  from proxyWidget_hit [OF assms(1,2) hit] assms(8) have second: "r2 = r1" "s2 = s1"
    by (simp_all add: r1)
  from assms(6) have "t3 - (t1 + d1) > widgetCacheTtl cfg pc"
    by arith
  with s1 second have miss: "cacheGet (nodeCache s2) ?key t3 = None"
    by (simp add: cacheGet_after_set)
  have "length (sent s3) = length (sent s2) + 1"
  proof (cases "httpClientGet reply3")
    case (Inl e)
    from proxyWidget_failed [OF assms(1,2) miss Inl] assms(9) show ?thesis
      by auto
  next
    case (Inr response3)
    from proxyWidget_fetched [OF assms(1,2) miss Inr] assms(9) show ?thesis
      by auto
  qed
  with s1 second r1 entry show ?thesis
    by simp
qed

text \<open>
  The default configuration, a service that has cached nothing, and an upstream that
  answers after two seconds: the request at 0 fetches and writes the entry at 2, the
  request at 302 is within the 300 seconds of the entry and is served from it, the
  request at 303 fetches again.
\<close>

theorem widget_cached_within_ttl_witness:
  "length (sent (snd (proxyWidget getDefaultConfig 0 2 sampleScript (js ''sportradar'')
      (js ''match.lmtPlus'') [] noRequestHeaders newService))) = 1 \<and>
   length (sent (snd (proxyWidget getDefaultConfig 302 2 sampleScript (js ''sportradar'')
      (js ''match.lmtPlus'') [] noRequestHeaders
      (snd (proxyWidget getDefaultConfig 0 2 sampleScript (js ''sportradar'')
         (js ''match.lmtPlus'') [] noRequestHeaders newService))))) = 1 \<and>
   length (sent (snd (proxyWidget getDefaultConfig 303 2 sampleScript (js ''sportradar'')
      (js ''match.lmtPlus'') [] noRequestHeaders
      (snd (proxyWidget getDefaultConfig 302 2 sampleScript (js ''sportradar'')
         (js ''match.lmtPlus'') [] noRequestHeaders
         (snd (proxyWidget getDefaultConfig 0 2 sampleScript (js ''sportradar'')
            (js ''match.lmtPlus'') [] noRequestHeaders newService))))))) = 2"
proof -
  let ?call = "\<lambda>t. proxyWidget getDefaultConfig t 2 sampleScript (js ''sportradar'')
      (js ''match.lmtPlus'') [] noRequestHeaders"
  obtain r1 s1 where p1: "?call 0 newService = (r1, s1)" by fastforce
  obtain r2 s2 where p2: "?call 302 s1 = (r2, s2)" by fastforce
  obtain r3 s3 where p3: "?call 303 s2 = (r3, s3)" by fastforce
  have miss: "cacheGet (nodeCache newService)
      (widgetCacheKey (js ''sportradar'') (js ''match.lmtPlus'') []) 0 = None"
    by (simp add: newService_def cacheGet_empty)
  have "map_of (nodeCache s1) (widgetCacheKey (js ''sportradar'') (js ''match.lmtPlus'') []) =
      Some \<lparr>cached = widgetResult \<lparr>responseStatus = 200,
                responseHeaders = [(js ''content-type'', HStr (js ''application/javascript''))],
                responseData = Text (js ''SIR()'')\<rparr>,
            inserted = 0 + 2,
            ttl = widgetCacheTtl getDefaultConfig (snd (hd (providers getDefaultConfig)))\<rparr> \<and>
      r1 = Inr (widgetResult \<lparr>responseStatus = 200,
                responseHeaders = [(js ''content-type'', HStr (js ''application/javascript''))],
                responseData = Text (js ''SIR()'')\<rparr>) \<and>
      length (sent s1) = length (sent newService) + 1 \<and> r2 = r1 \<and>
      length (sent s2) = length (sent newService) + 1 \<and>
      length (sent s3) = length (sent newService) + 2"
    by (rule widget_cached_within_ttl [OF default_sportradar(1,2) miss httpClientGet_sampleScript
        _ _ p1 p2 p3]) (simp_all add: default_sportradar)
  moreover have "sent newService = []"
    by (simp add: newService_def)
  ultimately show ?thesis
    by (simp add: p1 p2 p3)
qed

text \<open>
  Where the claim as worded fails: a key that has a live entry. The first request below,
  at 0, writes the entry at 2 with a TTL of 300 seconds. The two consecutive requests at
  10 and at 20 are both within the TTL of that entry, and together they make no upstream
  fetch at all, not one: the requests sent are those sent before them.
\<close>

theorem live_entry_counterexample:
  "map_option (\<lambda>entry. (inserted entry, ttl entry))
     (map_of (nodeCache (snd (proxyWidget getDefaultConfig 0 2 sampleScript (js ''sportradar'')
        (js ''match.lmtPlus'') [] noRequestHeaders newService)))
        (widgetCacheKey (js ''sportradar'') (js ''match.lmtPlus'') [])) = Some (2, 300) \<and>
   sent (snd (proxyWidget getDefaultConfig 20 2 sampleScript (js ''sportradar'')
      (js ''match.lmtPlus'') [] noRequestHeaders
      (snd (proxyWidget getDefaultConfig 10 2 sampleScript (js ''sportradar'')
         (js ''match.lmtPlus'') [] noRequestHeaders
         (snd (proxyWidget getDefaultConfig 0 2 sampleScript (js ''sportradar'')
            (js ''match.lmtPlus'') [] noRequestHeaders newService)))))) =
   sent (snd (proxyWidget getDefaultConfig 0 2 sampleScript (js ''sportradar'')
      (js ''match.lmtPlus'') [] noRequestHeaders newService)) \<and>
   length (sent (snd (proxyWidget getDefaultConfig 0 2 sampleScript (js ''sportradar'')
      (js ''match.lmtPlus'') [] noRequestHeaders newService))) = 1"
proof -
  let ?call = "\<lambda>t. proxyWidget getDefaultConfig t 2 sampleScript (js ''sportradar'')
      (js ''match.lmtPlus'') [] noRequestHeaders"
  let ?key = "widgetCacheKey (js ''sportradar'') (js ''match.lmtPlus'') []"
  let ?pc = "snd (hd (providers getDefaultConfig))"
  let ?result = "widgetResult \<lparr>responseStatus = 200,
      responseHeaders = [(js ''content-type'', HStr (js ''application/javascript''))],
      responseData = Text (js ''SIR()'')\<rparr>"
  let ?s0 = "newService\<lparr>sent := sent newService
        @ [widgetRequest ?pc \<lparr>path = js ''/{widgetId}/widgetloader''\<rparr> [] noRequestHeaders],
      nodeCache := cacheSet (maxKeys (cache getDefaultConfig)) (nodeCache newService) ?key ?result
        (widgetCacheTtl getDefaultConfig ?pc) (0 + 2)\<rparr>"
  have miss: "cacheGet (nodeCache newService) ?key 0 = None"
    by (simp add: newService_def cacheGet_empty)
  have p0: "?call 0 newService = (Inr ?result, ?s0)"
    by (rule proxyWidget_fetched [OF default_sportradar(1,2) miss httpClientGet_sampleScript])
  have entry: "map_of (nodeCache ?s0) ?key = Some \<lparr>cached = ?result, inserted = 2, ttl = 300\<rparr>"
    by (simp add: map_of_cacheSet default_sportradar)
  have sent0: "length (sent ?s0) = 1"
    by (simp add: newService_def)
  have hit1: "cacheGet (nodeCache ?s0) ?key 10 = Some ?result"
    and hit2: "cacheGet (nodeCache ?s0) ?key 20 = Some ?result"
    by (simp_all add: cacheGet_after_set default_sportradar)
  have first: "?call 10 ?s0 = (Inr ?result, ?s0)"
    by (rule proxyWidget_hit [OF default_sportradar(1,2) hit1])
  have second: "?call 20 ?s0 = (Inr ?result, ?s0)"
    by (rule proxyWidget_hit [OF default_sportradar(1,2) hit2])
  show ?thesis
    unfolding p0 snd_conv first second
    using entry sent0 by simp
qed

subsection \<open>The cache key\<close>

lemma stringifyProperties_Cons:
  "stringifyProperties ((k, v) # ps) =
     quoteJSONString k @ 0x3A # stringify v @ (if ps = [] then [] else 0x2C # stringifyProperties ps)"
  by (cases ps) simp_all

lemma stringifyProperties_append:
  "stringifyProperties (ps @ (k, v) # qs) =
     concat (map (\<lambda>p. quoteJSONString (fst p) @ 0x3A # stringify (snd p) @ [0x2C]) ps)
     @ quoteJSONString k @ 0x3A # stringify v
     @ (if qs = [] then [] else 0x2C # stringifyProperties qs)"
proof (induction ps)
  case Nil
  show ?case by (simp add: stringifyProperties_Cons)
next
  case (Cons p ps)
  obtain k' v' where p: "p = (k', v')" by (cases p)
  have "stringifyProperties (p # ps @ (k, v) # qs) =
      quoteJSONString k' @ 0x3A # stringify v' @ 0x2C # stringifyProperties (ps @ (k, v) # qs)"
    unfolding p by (simp add: stringifyProperties_Cons)
  with Cons.IH show ?case
    by (simp add: p)
qed

text \<open>
  C6, as the code has it. The key of a widget request is the provider, the widget type
  and \<open>JSON.stringify\<close> of the query object as it was parsed, with no canonical order:
  two requests that differ only in the string value of one query parameter have
  different keys.
\<close>

theorem widget_key_discriminates:
  "widgetCacheKey provider widgetType (ps @ (k, JString v) # qs) =
   widgetCacheKey provider widgetType (ps @ (k, JString v') # qs) \<longleftrightarrow> v = v'"
  by (simp add: widgetCacheKey_def stringifyProperties_append quoteJSONString_inject)

theorem parameter_order_counterexample:
  "widgetCacheKey (js ''sportradar'') (js ''match.lmtPlus'')
     [(js ''matchId'', JString (js ''1'')), (js ''lang'', JString (js ''en''))] \<noteq>
   widgetCacheKey (js ''sportradar'') (js ''match.lmtPlus'')
     [(js ''lang'', JString (js ''en'')), (js ''matchId'', JString (js ''1''))]"
  by (simp add: widgetCacheKey_def quoteJSONString_def quoteUnit_def isLeadingSurrogate_def
      isTrailingSurrogate_def js_def)

end
